theory Spec2Isabelle
  imports Main "HOL-Library.Sublist"
begin

section \<open>The OF2 workflow (of2\_cli.py)\<close>

text \<open>
  The program drives the ArcPy geoprocessing library: it resolves three dataset
  references, makes three layers, selects the storm layers by location, merges the
  selection under a field mapping and removes duplicates. ArcPy and \<open>os.path\<close> are
  not part of the program; they enter the model as parameters (a record of tools acting
  on an opaque store, a record of path functions), and every call the program makes is
  written to a log together with its outcome.
\<close>

subsection \<open>Strings\<close>

text \<open>
  \<open>str.lower()\<close> on the ASCII letters; every other character is kept. No character
  outside ASCII lower-cases to one of \<open>h, t, p, s, :, /\<close>, so the prefix test of
  \<open>resolve_dataset\<close> is decided by this part of \<open>lower\<close>.
\<close>

definition lower_char :: "char \<Rightarrow> char" where
  "lower_char c =
     (let n = (of_char c :: nat) in if 65 \<le> n \<and> n \<le> 90 then char_of (n + 32) else c)"

definition lower :: "string \<Rightarrow> string" where
  "lower s = map lower_char s"

text \<open>\<open>s.startswith((p1, p2, ...))\<close>: some element of the tuple is an initial slice of \<open>s\<close>.\<close>

definition startswith :: "string \<Rightarrow> string list \<Rightarrow> bool" where
  "startswith s ps = list_ex (\<lambda>p. take (length p) s = p) ps"

subsection \<open>os.path\<close>

text \<open>
  The path functions the program calls. The program runs on Windows (\<open>ntpath\<close>) and on
  Linux (\<open>posixpath\<close>), so the module is a parameter of the model.
\<close>

record os_path =
  isabs :: "string \<Rightarrow> bool"
  join :: "string \<Rightarrow> string \<Rightarrow> string"
  dirname :: "string \<Rightarrow> string"
  abspath :: "string \<Rightarrow> string"

text \<open>
  CPython's \<open>posixpath\<close>, for the Linux runs:
  \<^verbatim>\<open>
  def isabs(s): return s.startswith('/')
  def join(a, b):
      if b.startswith('/'): path = b
      elif not a or a.endswith('/'): path = a + b
      else: path = a + '/' + b
      return path
  def dirname(p):
      i = p.rfind('/') + 1
      head = p[:i]
      if head and head != '/' * len(head): head = head.rstrip('/')
      return head
  \<close>
  \<open>abspath\<close> depends on the current directory and stays a parameter.
\<close>

definition posix_isabs :: "string \<Rightarrow> bool" where
  "posix_isabs s = (take 1 s = ''/'')"

definition posix_join :: "string \<Rightarrow> string \<Rightarrow> string" where
  "posix_join a b =
     (if take 1 b = ''/'' then b
      else if a = [] \<or> last a = CHR ''/'' then a @ b
      else a @ ''/'' @ b)"

definition posix_dirname :: "string \<Rightarrow> string" where
  "posix_dirname p =
     (let head = rev (dropWhile (\<lambda>c. c \<noteq> CHR ''/'') (rev p))
      in if head \<noteq> [] \<and> head \<noteq> replicate (length head) (CHR ''/'')
         then rev (dropWhile (\<lambda>c. c = CHR ''/'') (rev head))
         else head)"

definition posixpath :: "(string \<Rightarrow> string) \<Rightarrow> os_path" where
  "posixpath ab = \<lparr>isabs = posix_isabs, join = posix_join, dirname = posix_dirname, abspath = ab\<rparr>"

subsection \<open>resolve\_dataset\<close>

text \<open>
  \<^verbatim>\<open>
  def resolve_dataset(path_or_name, workspace_gdb):
      if os.path.isabs(path_or_name) or path_or_name.lower().startswith(("http://", "https://")):
          return path_or_name
      return os.path.join(workspace_gdb, path_or_name)
  \<close>
\<close>

definition resolve_dataset :: "os_path \<Rightarrow> string \<Rightarrow> string \<Rightarrow> string" where
  "resolve_dataset P path_or_name workspace_gdb =
     (if isabs P path_or_name \<or> startswith (lower path_or_name) [''http://'', ''https://'']
      then path_or_name
      else join P workspace_gdb path_or_name)"

subsection \<open>Exceptions, ArcPy objects and the world\<close>

text \<open>
  The exceptions of a run. \<open>FileNotFoundError m\<close> carries the message text.
  \<open>RuntimeError m xs\<close> is \<open>RuntimeError(f"...{inputs}")\<close>: \<open>m\<close> is the text before the
  list and \<open>xs\<close> the list whose \<open>repr\<close> ends the message. \<open>ExecuteError\<close> is what a
  geoprocessing tool raises.
\<close>

datatype exn =
    FileNotFoundError string
  | RuntimeError string "string list"
  | ExecuteError string

text \<open>\<open>arcpy.Field\<close> (the two properties the program writes) and \<open>arcpy.FieldMap\<close>.\<close>

record field =
  name :: string
  aliasName :: string

record field_map =
  inputFields :: "(string \<times> string) list"
  outputField :: field
  mergeRule :: string

text \<open>\<open>arcpy.env\<close>: the four settings the program overrides.\<close>

record env_settings =
  workspace :: string
  scratchWorkspace :: string
  overwriteOutput :: bool
  parallelProcessingFactor :: string

text \<open>Every call of a run with its outcome, in the order made.\<close>

datatype event =
    EnvEnter env_settings
  | EnvExit env_settings
  | Ev_Exists string bool
  | Ev_Delete string bool
  | Ev_MakeFeatureLayer string string string bool
  | Ev_SelectLayerByLocation "string list" string string string bool
  | Ev_GetCount string "int option"
  | Ev_Merge "string list" string "field_map list" "string option"
  | Ev_ListFields string "field list option"
  | Ev_DeleteIdentical string "string list" bool
  | LoggingInfo string "int list"
  | LoggingWarning string

text \<open>
  The ArcPy tools the program calls, over a store of type \<open>'s\<close>. A tool reads the
  environment settings and the store and returns its result, or the exception it
  raises, with the store it leaves. \<open>tool_Exists\<close> answers; \<open>tool_Field\<close> is the field
  of a source that \<open>FieldMap.addInputField\<close> looks up (\<open>None\<close>: it raises).
  \<open>tool_GetCount\<close> is \<open>int(GetCount(x)[0])\<close> and \<open>tool_Merge\<close> is \<open>str(Merge(...)[0])\<close>.
\<close>

record 's arcpy =
  tool_Exists :: "env_settings \<Rightarrow> 's \<Rightarrow> string \<Rightarrow> bool"
  tool_Delete :: "env_settings \<Rightarrow> 's \<Rightarrow> string \<Rightarrow> (exn + unit) \<times> 's"
  tool_MakeFeatureLayer ::
    "env_settings \<Rightarrow> 's \<Rightarrow> string \<Rightarrow> string \<Rightarrow> string \<Rightarrow> (exn + unit) \<times> 's"
  tool_SelectLayerByLocation ::
    "env_settings \<Rightarrow> 's \<Rightarrow> string list \<Rightarrow> string \<Rightarrow> string \<Rightarrow> string \<Rightarrow> (exn + unit) \<times> 's"
  tool_GetCount :: "env_settings \<Rightarrow> 's \<Rightarrow> string \<Rightarrow> (exn + int) \<times> 's"
  tool_Field :: "env_settings \<Rightarrow> 's \<Rightarrow> string \<Rightarrow> string \<Rightarrow> field option"
  tool_Merge ::
    "env_settings \<Rightarrow> 's \<Rightarrow> string list \<Rightarrow> string \<Rightarrow> field_map list \<Rightarrow> (exn + string) \<times> 's"
  tool_ListFields :: "env_settings \<Rightarrow> 's \<Rightarrow> string \<Rightarrow> (exn + field list) \<times> 's"
  tool_DeleteIdentical ::
    "env_settings \<Rightarrow> 's \<Rightarrow> string \<Rightarrow> string list \<Rightarrow> (exn + unit) \<times> 's"

record 's world =
  eng :: 's
  env :: env_settings
  log :: "event list"

type_synonym ('s, 'a) prog = "'s world \<Rightarrow> (exn + 'a) \<times> 's world"

definition ret :: "'a \<Rightarrow> ('s, 'a) prog" where
  "ret x w = (Inr x, w)"

definition raise :: "exn \<Rightarrow> ('s, 'a) prog" where
  "raise e w = (Inl e, w)"

text \<open>Sequencing: an exception of the first part skips the rest.\<close>

definition bnd :: "('s, 'a) prog \<Rightarrow> ('a \<Rightarrow> ('s, 'b) prog) \<Rightarrow> ('s, 'b) prog" where
  "bnd m f w = (case m w of (Inl e, w') \<Rightarrow> (Inl e, w') | (Inr x, w') \<Rightarrow> f x w')"

definition emit :: "event \<Rightarrow> 's world \<Rightarrow> 's world" where
  "emit e w = w\<lparr>log := log w @ [e]\<rparr>"

text \<open>A tool call: run the tool on the store under the current settings, log the outcome.\<close>

definition invoke ::
  "(env_settings \<Rightarrow> 's \<Rightarrow> (exn + 'a) \<times> 's) \<Rightarrow> ((exn + 'a) \<Rightarrow> event) \<Rightarrow> ('s, 'a) prog" where
  "invoke tool ev w =
     (case tool (env w) (eng w) of (r, s') \<Rightarrow> (r, emit (ev r) (w\<lparr>eng := s'\<rparr>)))"

definition succeeded :: "exn + 'a \<Rightarrow> bool" where
  "succeeded r = (case r of Inl _ \<Rightarrow> False | Inr _ \<Rightarrow> True)"

definition outcome :: "exn + 'a \<Rightarrow> 'a option" where
  "outcome r = (case r of Inl _ \<Rightarrow> None | Inr x \<Rightarrow> Some x)"

definition arcpy_Exists :: "'s arcpy \<Rightarrow> string \<Rightarrow> ('s, bool) prog" where
  "arcpy_Exists arc p w =
     (let b = tool_Exists arc (env w) (eng w) p in (Inr b, emit (Ev_Exists p b) w))"

definition arcpy_Delete :: "'s arcpy \<Rightarrow> string \<Rightarrow> ('s, unit) prog" where
  "arcpy_Delete arc p =
     invoke (\<lambda>e s. tool_Delete arc e s p) (\<lambda>r. Ev_Delete p (succeeded r))"

definition arcpy_MakeFeatureLayer ::
  "'s arcpy \<Rightarrow> string \<Rightarrow> string \<Rightarrow> string \<Rightarrow> ('s, unit) prog" where
  "arcpy_MakeFeatureLayer arc in_features out_layer where_clause =
     invoke (\<lambda>e s. tool_MakeFeatureLayer arc e s in_features out_layer where_clause)
       (\<lambda>r. Ev_MakeFeatureLayer in_features out_layer where_clause (succeeded r))"

definition arcpy_SelectLayerByLocation ::
  "'s arcpy \<Rightarrow> string list \<Rightarrow> string \<Rightarrow> string \<Rightarrow> string \<Rightarrow> ('s, unit) prog" where
  "arcpy_SelectLayerByLocation arc in_layer overlap_type select_features selection_type =
     invoke
       (\<lambda>e s. tool_SelectLayerByLocation arc e s in_layer overlap_type select_features
          selection_type)
       (\<lambda>r. Ev_SelectLayerByLocation in_layer overlap_type select_features selection_type
          (succeeded r))"

definition arcpy_GetCount :: "'s arcpy \<Rightarrow> string \<Rightarrow> ('s, int) prog" where
  "arcpy_GetCount arc lyr =
     invoke (\<lambda>e s. tool_GetCount arc e s lyr) (\<lambda>r. Ev_GetCount lyr (outcome r))"

definition arcpy_Merge ::
  "'s arcpy \<Rightarrow> string list \<Rightarrow> string \<Rightarrow> field_map list \<Rightarrow> ('s, string) prog" where
  "arcpy_Merge arc inputs output field_mappings =
     invoke (\<lambda>e s. tool_Merge arc e s inputs output field_mappings)
       (\<lambda>r. Ev_Merge inputs output field_mappings (outcome r))"

definition arcpy_ListFields :: "'s arcpy \<Rightarrow> string \<Rightarrow> ('s, field list) prog" where
  "arcpy_ListFields arc p =
     invoke (\<lambda>e s. tool_ListFields arc e s p) (\<lambda>r. Ev_ListFields p (outcome r))"

definition arcpy_DeleteIdentical :: "'s arcpy \<Rightarrow> string \<Rightarrow> string list \<Rightarrow> ('s, unit) prog" where
  "arcpy_DeleteIdentical arc in_dataset key_fields =
     invoke (\<lambda>e s. tool_DeleteIdentical arc e s in_dataset key_fields)
       (\<lambda>r. Ev_DeleteIdentical in_dataset key_fields (succeeded r))"

definition logging_info :: "string \<Rightarrow> int list \<Rightarrow> ('s, unit) prog" where
  "logging_info fmt args w = (Inr (), emit (LoggingInfo fmt args) w)"

definition logging_warning :: "string \<Rightarrow> ('s, unit) prog" where
  "logging_warning msg w = (Inr (), emit (LoggingWarning msg) w)"

text \<open>
  \<open>with arcpy.EnvManager(...)\<close>: the settings are saved and overridden on entry and put
  back on exit, whether the body returns or raises; the body's exception then goes on
  to the caller.
\<close>

definition EnvManager :: "env_settings \<Rightarrow> ('s, 'a) prog \<Rightarrow> ('s, 'a) prog" where
  "EnvManager settings body w =
     (let saved = env w;
          (r, w') = body (emit (EnvEnter settings) (w\<lparr>env := settings\<rparr>))
      in (r, emit (EnvExit saved) (w'\<lparr>env := saved\<rparr>)))"

subsection \<open>ensure\_layer\<close>

text \<open>
  \<^verbatim>\<open>
  def ensure_layer(dataset_path, layer_name, where=None):
      if arcpy.Exists(layer_name):
          arcpy.management.Delete(layer_name)
      arcpy.management.MakeFeatureLayer(in_features=dataset_path, out_layer=layer_name,
                                        where_clause=where or "")
      return layer_name
  \<close>
\<close>

definition ensure_layer ::
  "'s arcpy \<Rightarrow> string \<Rightarrow> string \<Rightarrow> string option \<Rightarrow> ('s, string) prog" where
  "ensure_layer arc dataset_path layer_name where' =
     bnd (arcpy_Exists arc layer_name) (\<lambda>found.
     bnd (if found then arcpy_Delete arc layer_name else ret ()) (\<lambda>_.
     bnd (arcpy_MakeFeatureLayer arc dataset_path layer_name
            (case where' of None \<Rightarrow> [] | Some x \<Rightarrow> x)) (\<lambda>_.
     ret layer_name)))"

subsection \<open>build\_field\_mappings\<close>

text \<open>
  \<open>arcpy.FieldMap()\<close> is the empty map. \<open>fmap.addInputField(src, field_name)\<close> raises when
  the source has no such field; otherwise it appends the pair to the map's input fields,
  and the first input field gives the output field its properties.
\<close>

definition FieldMap :: field_map where
  "FieldMap = \<lparr>inputFields = [], outputField = \<lparr>name = [], aliasName = []\<rparr>, mergeRule = []\<rparr>"

definition addInputField ::
  "(string \<Rightarrow> string \<Rightarrow> field option) \<Rightarrow> field_map \<Rightarrow> string \<Rightarrow> string \<Rightarrow> field_map option" where
  "addInputField lk fmap src field_name =
     (case lk src field_name of
        None \<Rightarrow> None
      | Some fld \<Rightarrow>
          Some (fmap\<lparr>inputFields := inputFields fmap @ [(src, field_name)],
                     outputField := (if inputFields fmap = [] then fld else outputField fmap)\<rparr>))"

text \<open>
  The inner loop
  \<^verbatim>\<open>
  for src in inputs:
      try:
          fmap.addInputField(src, field_name)
          added_any = True
      except Exception:
          continue
  \<close>
  on the pair \<open>(fmap, added_any)\<close>.
\<close>

fun add_inputs ::
  "(string \<Rightarrow> string \<Rightarrow> field option) \<Rightarrow> string \<Rightarrow> string list \<Rightarrow> field_map \<times> bool
     \<Rightarrow> field_map \<times> bool" where
  "add_inputs lk field_name [] (fmap, added_any) = (fmap, added_any)"
| "add_inputs lk field_name (src # rest) (fmap, added_any) =
     (case addInputField lk fmap src field_name of
        Some fmap' \<Rightarrow> add_inputs lk field_name rest (fmap', True)
      | None \<Rightarrow> add_inputs lk field_name rest (fmap, added_any))"

text \<open>The text of \<open>f"Field '{field_name}' not found in any input: "\<close>.\<close>

definition not_found_message :: "string \<Rightarrow> string" where
  "not_found_message field_name =
     ''Field '' @ [CHR 0x27] @ field_name @ [CHR 0x27] @ '' not found in any input: ''"

definition desired :: "(string \<times> string) list" where
  "desired = [(''OrigPlan'', ''Original Plan''), (''DocLink'', ''Document Link'')]"

text \<open>
  The outer loop over the desired fields, on the field mappings built so far:
  \<^verbatim>\<open>
  for field_name, alias in desired:
      fmap = arcpy.FieldMap()
      added_any = False
      <inner loop>
      if not added_any:
          raise RuntimeError(f"Field '{field_name}' not found in any input: {inputs}")
      out_field = fmap.outputField
      out_field.name = field_name
      out_field.aliasName = alias
      fmap.outputField = out_field
      fmap.mergeRule = "First"
      field_mappings.addFieldMap(fmap)
  return field_mappings
  \<close>
\<close>

fun map_fields ::
  "(string \<Rightarrow> string \<Rightarrow> field option) \<Rightarrow> string list \<Rightarrow> (string \<times> string) list
     \<Rightarrow> field_map list \<Rightarrow> exn + field_map list" where
  "map_fields lk inputs [] field_mappings = Inr field_mappings"
| "map_fields lk inputs ((field_name, alias) # rest) field_mappings =
     (case add_inputs lk field_name inputs (FieldMap, False) of
        (fmap, added_any) \<Rightarrow>
          if \<not> added_any
          then Inl (RuntimeError (not_found_message field_name) inputs)
          else
            let out_field = outputField fmap;
                out_field = out_field\<lparr>name := field_name\<rparr>;
                out_field = out_field\<lparr>aliasName := alias\<rparr>;
                fmap = fmap\<lparr>outputField := out_field\<rparr>;
                fmap = fmap\<lparr>mergeRule := ''First''\<rparr>
            in map_fields lk inputs rest (field_mappings @ [fmap]))"

definition build_field_mappings ::
  "(string \<Rightarrow> string \<Rightarrow> field option) \<Rightarrow> string list \<Rightarrow> exn + field_map list" where
  "build_field_mappings lk inputs = map_fields lk inputs desired []"

text \<open>
  Inside a run the source's fields are those of the store under the current settings.
  Building the mappings calls no geoprocessing tool; its exception goes to the caller.
\<close>

definition arcpy_build_field_mappings :: "'s arcpy \<Rightarrow> string list \<Rightarrow> ('s, field_map list) prog" where
  "arcpy_build_field_mappings arc inputs w =
     (case build_field_mappings (tool_Field arc (env w) (eng w)) inputs of
        Inl e \<Rightarrow> (Inl e, w)
      | Inr field_mappings \<Rightarrow> (Inr field_mappings, w))"

subsection \<open>run\_of2\<close>

text \<open>
  The body of the \<open>with\<close> block, in the source's order, one definition for each of its
  parts. Lines 91 to 96:
  \<^verbatim>\<open>
  if not arcpy.Exists(parcels_path):
      raise FileNotFoundError(f"Parcels dataset not found: {parcels_path}")
  if not arcpy.Exists(sc_path):
      raise FileNotFoundError(f"Storm Catchment dataset not found: {sc_path}")
  if not arcpy.Exists(so_path):
      raise FileNotFoundError(f"Storm Cleanout dataset not found: {so_path}")
  \<close>
\<close>

definition validate_inputs :: "'s arcpy \<Rightarrow> string \<Rightarrow> string \<Rightarrow> string \<Rightarrow> ('s, unit) prog" where
  "validate_inputs arc parcels_path sc_path so_path =
     bnd (arcpy_Exists arc parcels_path) (\<lambda>found.
     bnd (if \<not> found
          then raise (FileNotFoundError (''Parcels dataset not found: '' @ parcels_path))
          else ret ()) (\<lambda>_.
     bnd (arcpy_Exists arc sc_path) (\<lambda>found.
     bnd (if \<not> found
          then raise (FileNotFoundError (''Storm Catchment dataset not found: '' @ sc_path))
          else ret ()) (\<lambda>_.
     bnd (arcpy_Exists arc so_path) (\<lambda>found.
     if \<not> found
     then raise (FileNotFoundError (''Storm Cleanout dataset not found: '' @ so_path))
     else ret ())))))"

text \<open>
  Lines 98 to 101:
  \<^verbatim>\<open>
  parcels_lyr = ensure_layer(parcels_path, "parcels_layer", expression)
  sc_lyr = ensure_layer(sc_path, "storm_catchment_layer")
  so_lyr = ensure_layer(so_path, "storm_cleanout_layer")
  \<close>
\<close>

definition make_layers ::
  "'s arcpy \<Rightarrow> string \<Rightarrow> string \<Rightarrow> string \<Rightarrow> string \<Rightarrow> ('s, string \<times> string \<times> string) prog" where
  "make_layers arc expression parcels_path sc_path so_path =
     bnd (ensure_layer arc parcels_path ''parcels_layer'' (Some expression)) (\<lambda>parcels_lyr.
     bnd (ensure_layer arc sc_path ''storm_catchment_layer'' None) (\<lambda>sc_lyr.
     bnd (ensure_layer arc so_path ''storm_cleanout_layer'' None) (\<lambda>so_lyr.
     ret (parcels_lyr, sc_lyr, so_lyr))))"

text \<open>
  Lines 103 to 114:
  \<^verbatim>\<open>
  arcpy.management.SelectLayerByLocation(in_layer=[sc_lyr, so_lyr], overlap_type="INTERSECT",
      select_features=parcels_lyr, selection_type="NEW_SELECTION")
  sc_count = int(arcpy.management.GetCount(sc_lyr)[0])
  so_count = int(arcpy.management.GetCount(so_lyr)[0])
  logging.info("Selected %d catchment and %d cleanout features", sc_count, so_count)
  \<close>
\<close>

definition select_by_parcels :: "'s arcpy \<Rightarrow> string \<Rightarrow> string \<Rightarrow> string \<Rightarrow> ('s, unit) prog" where
  "select_by_parcels arc parcels_lyr sc_lyr so_lyr =
     bnd (arcpy_SelectLayerByLocation arc [sc_lyr, so_lyr] ''INTERSECT'' parcels_lyr
            ''NEW_SELECTION'') (\<lambda>_.
     bnd (arcpy_GetCount arc sc_lyr) (\<lambda>sc_count.
     bnd (arcpy_GetCount arc so_lyr) (\<lambda>so_count.
     logging_info ''Selected %d catchment and %d cleanout features'' [sc_count, so_count])))"

text \<open>
  Lines 116 to 130:
  \<^verbatim>\<open>
  inputs = [sc_lyr, so_lyr]
  field_mappings = build_field_mappings(inputs)
  if os.path.dirname(output_fc):
      out_path = output_fc
  else:
      out_path = os.path.join(workspace_gdb, output_fc)
  if arcpy.Exists(out_path):
      arcpy.management.Delete(out_path)
  merge_result = arcpy.management.Merge(inputs=inputs, output=out_path,
                                        field_mappings=field_mappings)
  out_fc_path = str(merge_result[0])
  \<close>
\<close>

definition merge_selected ::
  "os_path \<Rightarrow> 's arcpy \<Rightarrow> string \<Rightarrow> string \<Rightarrow> string \<Rightarrow> string \<Rightarrow> ('s, string) prog" where
  "merge_selected P arc workspace_gdb output_fc sc_lyr so_lyr =
     (let inputs = [sc_lyr, so_lyr] in
      bnd (arcpy_build_field_mappings arc inputs) (\<lambda>field_mappings.
      let out_path = (if dirname P output_fc \<noteq> [] then output_fc
                      else join P workspace_gdb output_fc) in
      bnd (arcpy_Exists arc out_path) (\<lambda>found.
      bnd (if found then arcpy_Delete arc out_path else ret ()) (\<lambda>_.
      arcpy_Merge arc inputs out_path field_mappings))))"

text \<open>
  Lines 132 to 138:
  \<^verbatim>\<open>
  if "OrigPlan" in [f.name for f in arcpy.ListFields(out_fc_path)]:
      arcpy.management.DeleteIdentical(in_dataset=out_fc_path, fields=["OrigPlan"])
  else:
      logging.warning("Field 'OrigPlan' not present in output; skipping DeleteIdentical")
  return out_fc_path
  \<close>
\<close>

definition skip_message :: string where
  "skip_message =
     ''Field '' @ [CHR 0x27] @ ''OrigPlan'' @ [CHR 0x27]
       @ '' not present in output; skipping DeleteIdentical''"

definition remove_duplicates :: "'s arcpy \<Rightarrow> string \<Rightarrow> ('s, string) prog" where
  "remove_duplicates arc out_fc_path =
     bnd (arcpy_ListFields arc out_fc_path) (\<lambda>fs.
     bnd (if ''OrigPlan'' \<in> set (map name fs)
          then arcpy_DeleteIdentical arc out_fc_path [''OrigPlan'']
          else logging_warning skip_message) (\<lambda>_.
     ret out_fc_path))"

text \<open>
  \<^verbatim>\<open>
  def run_of2(expression, workspace_gdb, storm_catchment, storm_cleanout, parcels,
              output_fc, scratch_gdb=None):
      workspace_gdb = os.path.abspath(workspace_gdb)
      scratch_gdb = os.path.abspath(scratch_gdb) if scratch_gdb else workspace_gdb
      with arcpy.EnvManager(workspace=workspace_gdb, scratchWorkspace=scratch_gdb,
                            overwriteOutput=True, parallelProcessingFactor="100%"):
          parcels_path = resolve_dataset(parcels, workspace_gdb)
          sc_path = resolve_dataset(storm_catchment, workspace_gdb)
          so_path = resolve_dataset(storm_cleanout, workspace_gdb)
          <lines 91 to 138>
  \<close>
\<close>

definition of2_settings :: "os_path \<Rightarrow> string \<Rightarrow> string option \<Rightarrow> env_settings" where
  "of2_settings P workspace_gdb scratch_gdb =
     (let workspace_gdb = abspath P workspace_gdb;
          scratch_gdb = (case scratch_gdb of
                           None \<Rightarrow> workspace_gdb
                         | Some s \<Rightarrow> if s \<noteq> [] then abspath P s else workspace_gdb)
      in \<lparr>workspace = workspace_gdb, scratchWorkspace = scratch_gdb, overwriteOutput = True,
          parallelProcessingFactor = ''100%''\<rparr>)"

definition run_of2 ::
  "os_path \<Rightarrow> 's arcpy \<Rightarrow> string \<Rightarrow> string \<Rightarrow> string \<Rightarrow> string \<Rightarrow> string \<Rightarrow> string
     \<Rightarrow> string option \<Rightarrow> ('s, string) prog" where
  "run_of2 P arc expression workspace_gdb storm_catchment storm_cleanout parcels output_fc
     scratch_gdb =
     EnvManager (of2_settings P workspace_gdb scratch_gdb)
       (let workspace_gdb = abspath P workspace_gdb;
            parcels_path = resolve_dataset P parcels workspace_gdb;
            sc_path = resolve_dataset P storm_catchment workspace_gdb;
            so_path = resolve_dataset P storm_cleanout workspace_gdb
        in
        bnd (validate_inputs arc parcels_path sc_path so_path) (\<lambda>_.
        bnd (make_layers arc expression parcels_path sc_path so_path)
          (\<lambda>(parcels_lyr, sc_lyr, so_lyr).
        bnd (select_by_parcels arc parcels_lyr sc_lyr so_lyr) (\<lambda>_.
        bnd (merge_selected P arc workspace_gdb output_fc sc_lyr so_lyr) (\<lambda>out_fc_path.
        remove_duplicates arc out_fc_path)))))"

subsection \<open>A small store to run the program on\<close>

text \<open>
  A store for running the model on concrete inputs: the datasets and layers by name,
  each with the names of its fields. Making a layer copies the dataset's fields, a merge
  writes the output fields of the mappings, and the other tools leave the store as it is.
\<close>

definition store_fields :: "(string \<times> string list) list \<Rightarrow> string \<Rightarrow> string list option" where
  "store_fields s p = map_of s p"

definition small_arcpy :: "(string \<times> string list) list arcpy" where
  "small_arcpy =
     \<lparr>tool_Exists = (\<lambda>e s p. store_fields s p \<noteq> None),
      tool_Delete = (\<lambda>e s p. (Inr (), filter (\<lambda>x. fst x \<noteq> p) s)),
      tool_MakeFeatureLayer = (\<lambda>e s d l wh.
        case store_fields s d of
          None \<Rightarrow> (Inl (ExecuteError ''ERROR 000732''), s)
        | Some fs \<Rightarrow> (Inr (), (l, fs) # s)),
      tool_SelectLayerByLocation = (\<lambda>e s ls ov sel ty. (Inr (), s)),
      tool_GetCount = (\<lambda>e s l. (Inr 0, s)),
      tool_Field = (\<lambda>e s src f.
        case store_fields s src of
          None \<Rightarrow> None
        | Some fs \<Rightarrow> if f \<in> set fs then Some \<lparr>name = f, aliasName = f\<rparr> else None),
      tool_Merge = (\<lambda>e s ins out fms. (Inr out, (out, map (\<lambda>m. name (outputField m)) fms) # s)),
      tool_ListFields = (\<lambda>e s p.
        case store_fields s p of
          None \<Rightarrow> (Inl (ExecuteError ''ERROR 000732''), s)
        | Some fs \<Rightarrow> (Inr (map (\<lambda>f. \<lparr>name = f, aliasName = f\<rparr>) fs), s)),
      tool_DeleteIdentical = (\<lambda>e s p ks. (Inr (), s))\<rparr>"

text \<open>The same store with a merge that writes no attribute field.\<close>

definition bare_arcpy :: "(string \<times> string list) list arcpy" where
  "bare_arcpy = small_arcpy\<lparr>tool_Merge := (\<lambda>e s ins out fms. (Inr out, (out, []) # s))\<rparr>"

definition small_env :: env_settings where
  "small_env = \<lparr>workspace = [], scratchWorkspace = [], overwriteOutput = False,
                parallelProcessingFactor = []\<rparr>"

definition small_world :: "(string \<times> string list) list \<Rightarrow> (string \<times> string list) list world" where
  "small_world s = \<lparr>eng = s, env = small_env, log = []\<rparr>"

text \<open>A small store: parcels, a catchment dataset without \<open>DocLink\<close>, a cleanout dataset.\<close>

definition small_store :: "(string \<times> string list) list" where
  "small_store =
     [(''/gdb/Parcels'', [''PARCEL_NUMBER'']),
      (''/gdb/Catchment'', [''OrigPlan'']),
      (''/gdb/Cleanout'', [''OrigPlan'', ''DocLink''])]"

subsection \<open>Notions used in the properties\<close>

text \<open>
  The candidates of a field: the sources that have it, in the order of the inputs, each
  paired with the field's name.
\<close>

definition candidates ::
  "(string \<Rightarrow> string \<Rightarrow> field option) \<Rightarrow> string list \<Rightarrow> string \<Rightarrow> (string \<times> string) list" where
  "candidates lk inputs field_name =
     map (\<lambda>src. (src, field_name)) (filter (\<lambda>src. lk src field_name \<noteq> None) inputs)"

text \<open>A desired field that no input has.\<close>

definition lacks ::
  "(string \<Rightarrow> string \<Rightarrow> field option) \<Rightarrow> string list \<Rightarrow> string \<times> string \<Rightarrow> bool" where
  "lacks lk inputs d = (\<forall>src \<in> set inputs. lk src (fst d) = None)"

text \<open>The field rule of a desired field.\<close>

definition field_rule ::
  "(string \<Rightarrow> string \<Rightarrow> field option) \<Rightarrow> string list \<Rightarrow> string \<times> string \<Rightarrow> field_map" where
  "field_rule lk inputs d =
     \<lparr>inputFields = candidates lk inputs (fst d),
      outputField = \<lparr>name = fst d, aliasName = snd d\<rparr>,
      mergeRule = ''First''\<rparr>"

text \<open>
  A program yields \<open>R\<close> when, from every world, it only adds events to the log, and its
  result and the events it adds satisfy \<open>R\<close>.
\<close>

definition yields :: "((exn + 'a) \<Rightarrow> event list \<Rightarrow> bool) \<Rightarrow> ('s, 'a) prog \<Rightarrow> bool" where
  "yields R m = (\<forall>w. \<exists>tr. log (snd (m w)) = log w @ tr \<and> R (fst (m w)) tr)"

text \<open>
  Every selected event of a trace stands after events that satisfy \<open>ok\<close>.
\<close>

definition preceded :: "(event \<Rightarrow> bool) \<Rightarrow> (event list \<Rightarrow> event \<Rightarrow> bool) \<Rightarrow> event list \<Rightarrow> bool" where
  "preceded sel ok tr = (\<forall>pre e post. tr = pre @ e # post \<and> sel e \<longrightarrow> ok pre e)"

text \<open>The layers made, the merges and the calls of the duplicate removal in a trace.\<close>

fun is_make :: "event \<Rightarrow> bool" where
  "is_make (Ev_MakeFeatureLayer d n wh ok) = True"
| "is_make e = False"

fun is_merge :: "event \<Rightarrow> bool" where
  "is_merge (Ev_Merge ins out fms r) = True"
| "is_merge e = False"

fun is_dedup :: "event \<Rightarrow> bool" where
  "is_dedup (Ev_ListFields p r) = True"
| "is_dedup (Ev_DeleteIdentical p ks ok) = True"
| "is_dedup (LoggingWarning msg) = True"
| "is_dedup e = False"

text \<open>
  What stands before a layer that is made: the layer is one of \<open>A\<close> (dataset, name and
  filter), and the events just before are the check that found no layer of the name, or
  the check that found one and its deletion.
\<close>

definition layer_ok :: "(string \<times> string \<times> string) set \<Rightarrow> event list \<Rightarrow> event \<Rightarrow> bool" where
  "layer_ok A pre e =
     (case e of
        Ev_MakeFeatureLayer d n wh ok \<Rightarrow>
          (d, n, wh) \<in> A \<and>
          (\<exists>pre'. pre = pre' @ [Ev_Exists n False] \<or> pre = pre' @ [Ev_Exists n True, Ev_Delete n True])
      | _ \<Rightarrow> True)"

text \<open>
  What stands before a merge: it writes to \<open>out_path\<close> from the inputs \<open>ins\<close> under field
  mappings built for these inputs, and the events just before are the check that found
  nothing at \<open>out_path\<close>, or the check that found a dataset and its deletion.
\<close>

definition merge_ok :: "string \<Rightarrow> string list \<Rightarrow> event list \<Rightarrow> event \<Rightarrow> bool" where
  "merge_ok out_path ins pre e =
     (case e of
        Ev_Merge ins' out fms res \<Rightarrow>
          out = out_path \<and> ins' = ins \<and> (\<exists>lk. build_field_mappings lk ins = Inr fms) \<and>
          (\<exists>pre'. pre = pre' @ [Ev_Exists out False]
                \<or> pre = pre' @ [Ev_Exists out True, Ev_Delete out True])
      | _ \<Rightarrow> True)"

text \<open>
  The events of the merge of the selected layers with its result: none when the field
  mappings cannot be built; otherwise the check of \<open>out_path\<close>, the deletion when the
  check found a dataset, and the merge when nothing failed before it.
\<close>

definition merge_events :: "string \<Rightarrow> string list \<Rightarrow> exn + string \<Rightarrow> event list \<Rightarrow> bool" where
  "merge_events out_path ins r tr =
     ((tr = [] \<and> (\<exists>e. r = Inl e)) \<or>
      (\<exists>fms lk. build_field_mappings lk ins = Inr fms \<and>
         ((\<exists>res. tr = [Ev_Exists out_path False, Ev_Merge ins out_path fms res]
                \<and> (case res of None \<Rightarrow> \<exists>e. r = Inl e | Some p \<Rightarrow> r = Inr p))
          \<or> (tr = [Ev_Exists out_path True, Ev_Delete out_path False] \<and> (\<exists>e. r = Inl e))
          \<or> (\<exists>res. tr = [Ev_Exists out_path True, Ev_Delete out_path True,
                          Ev_Merge ins out_path fms res]
                \<and> (case res of None \<Rightarrow> \<exists>e. r = Inl e | Some p \<Rightarrow> r = Inr p)))))"

text \<open>
  The merges of a run: each stands after its check, and a run that returns \<open>p\<close> has a
  merge that returned \<open>p\<close>.
\<close>

definition merge_run :: "string \<Rightarrow> string list \<Rightarrow> exn + string \<Rightarrow> event list \<Rightarrow> bool" where
  "merge_run out_path ins r tr =
     (preceded is_merge (merge_ok out_path ins) tr \<and>
      (\<forall>p. r = Inr p \<longrightarrow> (\<exists>fms. Ev_Merge ins out_path fms (Some p) \<in> set tr)))"

text \<open>
  The events of the duplicate removal on \<open>p\<close> with its result: the listing of the fields
  failed; or the fields have \<open>OrigPlan\<close> and the identical records are deleted by it; or
  they do not, the warning is logged and \<open>p\<close> is returned.
\<close>

definition dedup_events :: "string \<Rightarrow> exn + string \<Rightarrow> event list \<Rightarrow> bool" where
  "dedup_events p r d =
     ((d = [Ev_ListFields p None] \<and> (\<exists>e. r = Inl e)) \<or>
      (\<exists>fs ok. ''OrigPlan'' \<in> set (map name fs) \<and>
         d = [Ev_ListFields p (Some fs), Ev_DeleteIdentical p [''OrigPlan''] ok] \<and>
         (if ok then r = Inr p else \<exists>e. r = Inl e)) \<or>
      (\<exists>fs. ''OrigPlan'' \<notin> set (map name fs) \<and>
         d = [Ev_ListFields p (Some fs), LoggingWarning skip_message] \<and> r = Inr p))"

text \<open>
  The events of a run as far as the duplicate removal goes: the run fails without a
  merge that returned and without reaching it, or it reaches it right after the one merge
  that returned, with result \<open>p\<close>.
\<close>

fun merged_ok :: "event \<Rightarrow> bool" where
  "merged_ok (Ev_Merge ins out fms (Some p)) = True"
| "merged_ok e = False"

definition dedup_run :: "exn + string \<Rightarrow> event list \<Rightarrow> bool" where
  "dedup_run r tr =
     (((\<forall>e \<in> set tr. \<not> is_dedup e \<and> \<not> merged_ok e) \<and> (\<exists>e. r = Inl e)) \<or>
      (\<exists>pre ins out fms p d. tr = pre @ Ev_Merge ins out fms (Some p) # d \<and>
         (\<forall>e \<in> set pre. \<not> is_dedup e \<and> \<not> merged_ok e) \<and> dedup_events p r d))"

text \<open>
  What an event says of the tools. Replaying an event on the settings and a store runs
  the tool of the event there and takes the store the tool leaves; it fails when the
  outcome in the event is not the outcome of the tool. Replaying a trace replays its
  events in order.
\<close>

fun apply_event :: "'s arcpy \<Rightarrow> event \<Rightarrow> env_settings \<times> 's \<Rightarrow> (env_settings \<times> 's) option" where
  "apply_event arc (EnvEnter settings) (E, s) = Some (settings, s)"
| "apply_event arc (EnvExit saved) (E, s) = Some (saved, s)"
| "apply_event arc (Ev_Exists p b) (E, s) =
     (if tool_Exists arc E s p = b then Some (E, s) else None)"
| "apply_event arc (Ev_Delete p ok) (E, s) =
     (case tool_Delete arc E s p of (r, s') \<Rightarrow> if succeeded r = ok then Some (E, s') else None)"
| "apply_event arc (Ev_MakeFeatureLayer d n wh ok) (E, s) =
     (case tool_MakeFeatureLayer arc E s d n wh of
        (r, s') \<Rightarrow> if succeeded r = ok then Some (E, s') else None)"
| "apply_event arc (Ev_SelectLayerByLocation ls ov sel ty ok) (E, s) =
     (case tool_SelectLayerByLocation arc E s ls ov sel ty of
        (r, s') \<Rightarrow> if succeeded r = ok then Some (E, s') else None)"
| "apply_event arc (Ev_GetCount l c) (E, s) =
     (case tool_GetCount arc E s l of (r, s') \<Rightarrow> if outcome r = c then Some (E, s') else None)"
| "apply_event arc (Ev_Merge ins out fms res) (E, s) =
     (case tool_Merge arc E s ins out fms of
        (r, s') \<Rightarrow> if outcome r = res then Some (E, s') else None)"
| "apply_event arc (Ev_ListFields p fs) (E, s) =
     (case tool_ListFields arc E s p of (r, s') \<Rightarrow> if outcome r = fs then Some (E, s') else None)"
| "apply_event arc (Ev_DeleteIdentical p ks ok) (E, s) =
     (case tool_DeleteIdentical arc E s p ks of
        (r, s') \<Rightarrow> if succeeded r = ok then Some (E, s') else None)"
| "apply_event arc (LoggingInfo fmt args) (E, s) = Some (E, s)"
| "apply_event arc (LoggingWarning msg) (E, s) = Some (E, s)"

fun replay :: "'s arcpy \<Rightarrow> event list \<Rightarrow> env_settings \<times> 's \<Rightarrow> (env_settings \<times> 's) option" where
  "replay arc [] c = Some c"
| "replay arc (e # tr) c =
     (case apply_event arc e c of None \<Rightarrow> None | Some c' \<Rightarrow> replay arc tr c')"

text \<open>
  A program is faithful to the tools when, from every world, the events it adds replay
  on the settings and the store it starts from, and the replay ends in the settings and
  the store it leaves: the program has run the tools of its events, in their order, on
  the store, and has done nothing else to the store.
\<close>

definition faithful :: "'s arcpy \<Rightarrow> ('s, 'a) prog \<Rightarrow> bool" where
  "faithful arc m =
     (\<forall>w. \<exists>tr. log (snd (m w)) = log w @ tr \<and>
        replay arc tr (env w, eng w) = Some (env (snd (m w)), eng (snd (m w))))"

fun is_env :: "event \<Rightarrow> bool" where
  "is_env (EnvEnter settings) = True"
| "is_env (EnvExit saved) = True"
| "is_env e = False"

text \<open>
  What the properties ask of the tools. A deletion that succeeds leaves nothing of that
  name. For a view \<open>content\<close> of the records that a store holds under a name: a merge
  to a name under which nothing exists leaves there the records \<open>merged\<close> of its inputs;
  listing fields changes no records, and deleting identical records adds none.
\<close>

definition delete_clears :: "'s arcpy \<Rightarrow> bool" where
  "delete_clears arc =
     (\<forall>E s p u s'. tool_Delete arc E s p = (Inr u, s') \<longrightarrow> \<not> tool_Exists arc E s' p)"

definition merge_fresh ::
  "'s arcpy \<Rightarrow> ('s \<Rightarrow> string \<Rightarrow> 'r set) \<Rightarrow> ('s \<Rightarrow> string list \<Rightarrow> 'r set) \<Rightarrow> bool" where
  "merge_fresh arc content merged =
     (\<forall>E s ins out fms p s'.
        \<not> tool_Exists arc E s out \<and> tool_Merge arc E s ins out fms = (Inr p, s')
        \<longrightarrow> content s' p = merged s ins)"

definition dedup_shrinks :: "'s arcpy \<Rightarrow> ('s \<Rightarrow> string \<Rightarrow> 'r set) \<Rightarrow> bool" where
  "dedup_shrinks arc content =
     ((\<forall>E s p r s'. tool_ListFields arc E s p = (r, s') \<longrightarrow> content s' p = content s p) \<and>
      (\<forall>E s p ks r s'. tool_DeleteIdentical arc E s p ks = (r, s') \<longrightarrow> content s' p \<subseteq> content s p))"

text \<open>
  A store of records: the datasets and layers by name, each with its records, a record
  being its \<open>OrigPlan\<close> value. Every dataset has both desired fields. A merge puts the
  records of its inputs in front of what is at the output already, and deleting
  identical records keeps one of each.
\<close>

definition records_of :: "(string \<times> string list) list \<Rightarrow> string \<Rightarrow> string list" where
  "records_of s p = (case map_of s p of None \<Rightarrow> [] | Some rs \<Rightarrow> rs)"

definition record_content :: "(string \<times> string list) list \<Rightarrow> string \<Rightarrow> string set" where
  "record_content s p = set (records_of s p)"

definition record_merged :: "(string \<times> string list) list \<Rightarrow> string list \<Rightarrow> string set" where
  "record_merged s ins = (\<Union>i \<in> set ins. record_content s i)"

definition record_arcpy :: "(string \<times> string list) list arcpy" where
  "record_arcpy =
     \<lparr>tool_Exists = (\<lambda>e s p. map_of s p \<noteq> None),
      tool_Delete = (\<lambda>e s p. (Inr (), filter (\<lambda>x. fst x \<noteq> p) s)),
      tool_MakeFeatureLayer = (\<lambda>e s d l wh.
        case map_of s d of
          None \<Rightarrow> (Inl (ExecuteError ''ERROR 000732''), s)
        | Some rs \<Rightarrow> (Inr (), (l, rs) # s)),
      tool_SelectLayerByLocation = (\<lambda>e s ls ov sel ty. (Inr (), s)),
      tool_GetCount = (\<lambda>e s l. (Inr (int (length (records_of s l))), s)),
      tool_Field = (\<lambda>e s src f.
        if map_of s src \<noteq> None then Some \<lparr>name = f, aliasName = f\<rparr> else None),
      tool_Merge = (\<lambda>e s ins out fms.
        (Inr out, (out, concat (map (records_of s) ins) @ records_of s out) # s)),
      tool_ListFields = (\<lambda>e s p.
        (Inr [\<lparr>name = ''OrigPlan'', aliasName = ''OrigPlan''\<rparr>,
              \<lparr>name = ''DocLink'', aliasName = ''DocLink''\<rparr>], s)),
      tool_DeleteIdentical = (\<lambda>e s p ks.
        (Inr (), map (\<lambda>x. if fst x = p then (fst x, remdups (snd x)) else x) s))\<rparr>"

text \<open>Its store after an earlier run: the parcels layer and an output with an old record.\<close>

definition record_store :: "(string \<times> string list) list" where
  "record_store =
     [(''parcels_layer'', [''lot 7'']),
      (''/gdb/out'', [''plan 0'']),
      (''/gdb/Parcels'', [''lot 1'']),
      (''/gdb/Catchment'', [''plan 1'', ''plan 2'']),
      (''/gdb/Cleanout'', [''plan 2'', ''plan 3''])]"

text \<open>The store after an earlier run: its parcels layer and its output are still there.\<close>

definition stale_store :: "(string \<times> string list) list" where
  "stale_store =
     (''parcels_layer'', [''PARCEL_NUMBER'']) # (''/gdb/out'', [''OrigPlan'', ''DocLink''])
       # small_store"

text \<open>The runs of the program on these stores, under \<open>posixpath\<close> with workspace \<open>/gdb\<close>.\<close>

definition small_run ::
  "(string \<times> string list) list arcpy \<Rightarrow> string \<Rightarrow> (string \<times> string list) list
     \<Rightarrow> (exn + string) \<times> (string \<times> string list) list world" where
  "small_run arc parcels s =
     run_of2 (posixpath id) arc ''PARCEL_NUMBER = 1'' ''/gdb'' ''Catchment'' ''Cleanout'' parcels
       ''out'' None (small_world s)"

text \<open>The tools of the small store, with a selection by location that fails.\<close>

definition failing_arcpy :: "(string \<times> string list) list arcpy" where
  "failing_arcpy =
     small_arcpy\<lparr>tool_SelectLayerByLocation :=
       (\<lambda>e s ls ov sel ty. (Inl (ExecuteError ''ERROR 999999''), s))\<rparr>"

text \<open>The settings of these runs and the field mappings they build.\<close>

definition small_settings :: env_settings where
  "small_settings =
     \<lparr>workspace = ''/gdb'', scratchWorkspace = ''/gdb'', overwriteOutput = True,
      parallelProcessingFactor = ''100%''\<rparr>"

definition small_mappings :: "field_map list" where
  "small_mappings =
     [\<lparr>inputFields = [(''storm_catchment_layer'', ''OrigPlan''),
                       (''storm_cleanout_layer'', ''OrigPlan'')],
       outputField = \<lparr>name = ''OrigPlan'', aliasName = ''Original Plan''\<rparr>,
       mergeRule = ''First''\<rparr>,
      \<lparr>inputFields = [(''storm_cleanout_layer'', ''DocLink'')],
       outputField = \<lparr>name = ''DocLink'', aliasName = ''Document Link''\<rparr>,
       mergeRule = ''First''\<rparr>]"

section \<open>Properties\<close>

subsection \<open>Strings and paths\<close>

lemma take_length_iff_prefix: "take (length p) s = p \<longleftrightarrow> prefix p s"
  by (metis append_take_drop_id prefix_def append_eq_conv_conj)

lemma startswith_iff: "startswith s ps \<longleftrightarrow> (\<exists>p \<in> set ps. prefix p s)"
  by (simp add: startswith_def list_ex_iff take_length_iff_prefix)

lemma lower_append: "lower (a @ b) = lower a @ lower b"
  by (simp add: lower_def)

lemma lower_char_colon: "lower_char c = CHR '':'' \<longleftrightarrow> c = CHR '':''"
proof -
  have "char_of (of_char c + 32 :: nat) \<noteq> CHR '':''" if "65 \<le> (of_char c :: nat)" "(of_char c :: nat) \<le> 90"
  proof
    assume "char_of (of_char c + 32 :: nat) = CHR '':''"
    then have "take_bit 8 (of_char c + 32 :: nat) = of_char CHR '':''"
      by (simp only: char_of_eq_iff)
    moreover have "take_bit 8 (of_char c + 32 :: nat) = of_char c + 32"
      using that by (simp add: take_bit_nat_eq_self_iff)
    ultimately show False using that by simp
  qed
  then show ?thesis
    by (auto simp: lower_char_def Let_def)
qed

lemma colon_in_lower: "CHR '':'' \<in> set (lower s) \<longleftrightarrow> CHR '':'' \<in> set s"
proof -
  have "CHR '':'' \<in> lower_char ` set s \<longleftrightarrow> CHR '':'' \<in> set s"
  proof
    assume "CHR '':'' \<in> lower_char ` set s"
    then obtain c where "c \<in> set s" "lower_char c = CHR '':''" by auto
    then show "CHR '':'' \<in> set s" by (simp add: lower_char_colon)
  next
    assume "CHR '':'' \<in> set s"
    moreover have "lower_char CHR '':'' = CHR '':''" by (simp add: lower_char_colon)
    ultimately show "CHR '':'' \<in> lower_char ` set s" by force
  qed
  then show ?thesis by (simp add: lower_def)
qed

lemma takeWhile_upto: "c \<notin> set a \<Longrightarrow> takeWhile (\<lambda>x. x \<noteq> c) (a @ c # x) = a"
  by (induction a) auto

lemma posix_isabs_iff: "posix_isabs s \<longleftrightarrow> (\<exists>r. s = CHR ''/'' # r)"
  by (cases s) (auto simp: posix_isabs_def)

lemma scheme_of_prefix:
  assumes "CHR '':'' \<notin> set a" "prefix (b @ '':'' @ y) (a @ '':'' @ x)" "CHR '':'' \<notin> set b"
  shows "a = b"
proof -
  from assms(2) obtain z where z: "a @ '':'' @ x = b @ '':'' @ y @ z"
    by (auto simp: prefix_def)
  have "takeWhile (\<lambda>c. c \<noteq> CHR '':'') (a @ '':'' @ x) = a"
    using assms(1) by (simp add: takeWhile_upto)
  moreover have "takeWhile (\<lambda>c. c \<noteq> CHR '':'') (b @ '':'' @ y @ z) = b"
    using assms(3) by (simp add: takeWhile_upto)
  ultimately show ?thesis using z by simp
qed

text \<open>
  Claim C4. A reference that is an absolute path, or whose lower-cased form starts with
  \<open>http://\<close> or \<open>https://\<close>, is returned unchanged by \<open>resolve_dataset\<close>; every
  other reference is joined to the workspace by \<open>os.path.join\<close>. On Linux the absolute
  paths are those starting with a slash, and joining to a non-empty workspace that does
  not end in a slash puts one slash between the two.
\<close>

theorem resolve_dataset_cases:
  "(isabs P ref \<or> prefix ''http://'' (lower ref) \<or> prefix ''https://'' (lower ref)
      \<longrightarrow> resolve_dataset P ref ws = ref) \<and>
   (\<not> isabs P ref \<and> \<not> prefix ''http://'' (lower ref) \<and> \<not> prefix ''https://'' (lower ref)
      \<longrightarrow> resolve_dataset P ref ws = join P ws ref) \<and>
   (isabs (posixpath ab) ref \<longleftrightarrow> (\<exists>r. ref = CHR ''/'' # r)) \<and>
   (\<not> isabs (posixpath ab) ref \<and> ws \<noteq> [] \<and> last ws \<noteq> CHR ''/''
      \<longrightarrow> join (posixpath ab) ws ref = ws @ ''/'' @ ref)"
proof -
  have "join (posixpath ab) ws ref = ws @ ''/'' @ ref"
    if "\<not> isabs (posixpath ab) ref" "ws \<noteq> []" "last ws \<noteq> CHR ''/''"
    using that by (simp add: posixpath_def posix_join_def posix_isabs_def)
  then show ?thesis
    by (auto simp: resolve_dataset_def startswith_iff posixpath_def posix_isabs_iff)
qed

text \<open>An absolute path, a URL and a bare name, resolved against \<open>/gdb\<close>.\<close>

theorem resolve_dataset_cases_witness:
  "resolve_dataset (posixpath id) ''/data/fgdb.gdb/Parcels'' ''/gdb'' = ''/data/fgdb.gdb/Parcels'' \<and>
   resolve_dataset (posixpath id) ''https://host/FeatureServer/0'' ''/gdb'' = ''https://host/FeatureServer/0'' \<and>
   resolve_dataset (posixpath id) ''Parcels'' ''/gdb'' = ''/gdb/Parcels''"
proof -
  have a: "isabs (posixpath id) ''/data/fgdb.gdb/Parcels''"
    by (simp add: posixpath_def posix_isabs_def)
  have b: "prefix ''https://'' (lower ''https://host/FeatureServer/0'')"
    by (simp add: lower_def lower_char_def)
  have c: "\<not> isabs (posixpath id) ''Parcels'' \<and> \<not> prefix ''http://'' (lower ''Parcels'')
           \<and> \<not> prefix ''https://'' (lower ''Parcels'')"
    by (simp add: posixpath_def posix_isabs_def lower_def lower_char_def)
  have d: "\<not> isabs (posixpath id) ''Parcels'' \<and> ''/gdb'' \<noteq> [] \<and> last ''/gdb'' \<noteq> CHR ''/''"
    by (simp add: posixpath_def posix_isabs_def)
  show ?thesis
    using resolve_dataset_cases [where P = "posixpath id" and ref = "''/data/fgdb.gdb/Parcels''"
        and ws = "''/gdb''" and ab = id] a
      resolve_dataset_cases [where P = "posixpath id" and ref = "''https://host/FeatureServer/0''"
        and ws = "''/gdb''" and ab = id] b
      resolve_dataset_cases [where P = "posixpath id" and ref = "''Parcels''"
        and ws = "''/gdb''" and ab = id] c d
    by simp
qed

text \<open>
  Claim C10. The URL test of \<open>resolve_dataset\<close> ignores case: a reference that starts
  with \<open>http://\<close> or \<open>https://\<close> in any mix of upper and lower case is returned
  unchanged. A reference \<open>scheme://rest\<close> with another scheme is joined to the workspace
  when it is not absolute, and on Linux it never is.
\<close>

theorem resolve_dataset_url_any_case:
  "(lower pre = ''http://'' \<or> lower pre = ''https://''
      \<longrightarrow> resolve_dataset P (pre @ rest) ws = pre @ rest) \<and>
   (CHR '':'' \<notin> set scheme \<and> lower scheme \<noteq> ''http'' \<and> lower scheme \<noteq> ''https''
      \<and> \<not> isabs P (scheme @ ''://'' @ rest)
      \<longrightarrow> resolve_dataset P (scheme @ ''://'' @ rest) ws = join P ws (scheme @ ''://'' @ rest)) \<and>
   (scheme \<noteq> [] \<and> CHR ''/'' \<notin> set scheme \<longrightarrow> \<not> isabs (posixpath ab) (scheme @ ''://'' @ rest))"
proof (intro conjI impI)
  assume "lower pre = ''http://'' \<or> lower pre = ''https://''"
  then have "prefix ''http://'' (lower (pre @ rest)) \<or> prefix ''https://'' (lower (pre @ rest))"
    by (auto simp: lower_append)
  then show "resolve_dataset P (pre @ rest) ws = pre @ rest"
    by (auto simp: resolve_dataset_def startswith_iff)
next
  assume h: "CHR '':'' \<notin> set scheme \<and> lower scheme \<noteq> ''http'' \<and> lower scheme \<noteq> ''https''
      \<and> \<not> isabs P (scheme @ ''://'' @ rest)"
  let ?ref = "scheme @ ''://'' @ rest"
  have low: "lower ?ref = lower scheme @ '':'' @ (''//'' @ lower rest)"
    by (simp add: lower_def lower_char_def)
  have nc: "CHR '':'' \<notin> set (lower scheme)"
    using h by (simp add: colon_in_lower)
  have "\<not> prefix ''http://'' (lower ?ref)"
  proof
    assume "prefix ''http://'' (lower ?ref)"
    then have "prefix (''http'' @ '':'' @ ''//'') (lower scheme @ '':'' @ (''//'' @ lower rest))"
      by (simp only: low) simp
    from scheme_of_prefix [OF nc this] have "lower scheme = ''http''" by simp
    with h show False by simp
  qed
  moreover have "\<not> prefix ''https://'' (lower ?ref)"
  proof
    assume "prefix ''https://'' (lower ?ref)"
    then have "prefix (''https'' @ '':'' @ ''//'') (lower scheme @ '':'' @ (''//'' @ lower rest))"
      by (simp only: low) simp
    from scheme_of_prefix [OF nc this] have "lower scheme = ''https''" by simp
    with h show False by simp
  qed
  ultimately show "resolve_dataset P ?ref ws = join P ws ?ref"
    using h by (simp add: resolve_dataset_def startswith_iff)
next
  assume "scheme \<noteq> [] \<and> CHR ''/'' \<notin> set scheme"
  then show "\<not> isabs (posixpath ab) (scheme @ ''://'' @ rest)"
    by (cases scheme) (auto simp: posixpath_def posix_isabs_def)
qed

text \<open>The references \<open>HTTPS://host/fc\<close> and \<open>ftp://host/fc\<close>.\<close>

theorem resolve_dataset_url_any_case_witness:
  "resolve_dataset (posixpath id) ''HTTPS://host/fc'' ''/gdb'' = ''HTTPS://host/fc'' \<and>
   resolve_dataset (posixpath id) ''ftp://host/fc'' ''/gdb'' = ''/gdb/ftp://host/fc''"
proof -
  have a: "lower ''HTTPS://'' = ''https://''"
    by code_simp
  have b: "CHR '':'' \<notin> set ''ftp'' \<and> lower ''ftp'' \<noteq> ''http'' \<and> lower ''ftp'' \<noteq> ''https''
      \<and> \<not> isabs (posixpath id) (''ftp'' @ ''://'' @ ''host/fc'')"
    by (simp add: lower_def lower_char_def posixpath_def posix_isabs_def)
  have c: "''ftp'' \<noteq> [] \<and> CHR ''/'' \<notin> set ''ftp''" by simp
  have j: "join (posixpath id) ''/gdb'' ''ftp://host/fc'' = ''/gdb/ftp://host/fc''"
    by (simp add: posixpath_def posix_join_def)
  show ?thesis
    using resolve_dataset_url_any_case [where pre = "''HTTPS://''" and rest = "''host/fc''"
        and P = "posixpath id" and ws = "''/gdb''" and scheme = "''ftp''" and ab = id] a b c j
    by simp
qed

subsection \<open>The field mappings\<close>

lemma add_inputs_inputFields:
  "inputFields (fst (add_inputs lk f srcs (fm, b))) = inputFields fm @ candidates lk srcs f"
  by (induction srcs arbitrary: fm b) (auto simp: candidates_def addInputField_def split: option.splits)

lemma add_inputs_added:
  "snd (add_inputs lk f srcs (fm, b)) \<longleftrightarrow> b \<or> (\<exists>src \<in> set srcs. lk src f \<noteq> None)"
  by (induction srcs arbitrary: fm b) (auto simp: addInputField_def split: option.splits)


lemma map_fields_step:
  "map_fields lk inputs (d # rest) acc =
     (if lacks lk inputs d then Inl (RuntimeError (not_found_message (fst d)) inputs)
      else map_fields lk inputs rest (acc @ [field_rule lk inputs d]))"
proof -
  obtain f a where d: "d = (f, a)" by (cases d)
  obtain fm b where ai: "add_inputs lk f inputs (FieldMap, False) = (fm, b)"
    by (cases "add_inputs lk f inputs (FieldMap, False)")
  have b: "b \<longleftrightarrow> \<not> lacks lk inputs d"
    using add_inputs_added [of lk f inputs FieldMap False] ai d by (auto simp: lacks_def)
  have i: "inputFields fm = candidates lk inputs f"
    using add_inputs_inputFields [of lk f inputs FieldMap False] ai by (simp add: FieldMap_def)
  have "fm\<lparr>outputField := (outputField fm)\<lparr>name := f, aliasName := a\<rparr>, mergeRule := ''First''\<rparr>
        = field_rule lk inputs d"
    using i d by (simp add: field_rule_def)
  then show ?thesis
    using ai b d by (simp add: Let_def)
qed

lemma map_fields_result:
  "map_fields lk inputs ds acc =
     (case find (lacks lk inputs) ds of
        Some d \<Rightarrow> Inl (RuntimeError (not_found_message (fst d)) inputs)
      | None \<Rightarrow> Inr (acc @ map (field_rule lk inputs) ds))"
proof (induction ds arbitrary: acc)
  case Nil
  then show ?case by simp
next
  case (Cons d ds)
  show ?case
    by (simp only: map_fields_step Cons.IH) (simp split: option.splits)
qed


lemma build_field_mappings_result:
  "build_field_mappings lk inputs =
     (case find (lacks lk inputs) desired of
        Some d \<Rightarrow> Inl (RuntimeError (not_found_message (fst d)) inputs)
      | None \<Rightarrow> Inr (map (field_rule lk inputs) desired))"
  by (simp add: build_field_mappings_def map_fields_result split: option.splits)



text \<open>
  Claim C1. When each of the desired fields \<open>OrigPlan\<close> and \<open>DocLink\<close> is a field of at
  least one input, \<open>build_field_mappings\<close> returns field mappings, one for each desired
  field and in their order, whose output fields carry the desired names and aliases.
  One input with the field is enough.
\<close>

theorem build_field_mappings_rules:
  assumes "\<forall>(field_name, alias) \<in> set desired. \<exists>src \<in> set inputs. lk src field_name \<noteq> None"
  shows "\<exists>fms. build_field_mappings lk inputs = Inr fms
           \<and> map (\<lambda>m. (name (outputField m), aliasName (outputField m))) fms = desired
           \<and> desired = [(''OrigPlan'', ''Original Plan''), (''DocLink'', ''Document Link'')]"
proof -
  have "find (lacks lk inputs) desired = None"
    using assms by (auto simp: find_None_iff lacks_def)
  then have "build_field_mappings lk inputs = Inr (map (field_rule lk inputs) desired)"
    by (simp add: build_field_mappings_result)
  moreover have "map (\<lambda>m. (name (outputField m), aliasName (outputField m)))
                   (map (field_rule lk inputs) desired) = desired"
    by (simp add: field_rule_def comp_def)
  ultimately show ?thesis by (simp add: desired_def)
qed

text \<open>Two inputs, of which only the second has \<open>DocLink\<close>.\<close>

theorem build_field_mappings_rules_witness:
  "\<exists>fms. build_field_mappings (tool_Field small_arcpy small_env small_store)
            [''/gdb/Catchment'', ''/gdb/Cleanout''] = Inr fms
         \<and> map (\<lambda>m. (name (outputField m), aliasName (outputField m))) fms = desired
         \<and> desired = [(''OrigPlan'', ''Original Plan''), (''DocLink'', ''Document Link'')]"
proof -
  have "\<forall>(field_name, alias) \<in> set desired.
          \<exists>src \<in> set [''/gdb/Catchment'', ''/gdb/Cleanout''].
            tool_Field small_arcpy small_env small_store src field_name \<noteq> None"
    by (simp add: desired_def small_arcpy_def small_store_def store_fields_def)
  then show ?thesis by (rule build_field_mappings_rules)
qed



subsection \<open>Programs and their events\<close>

lemma yieldsI:
  assumes "\<And>w. \<exists>tr. log (snd (m w)) = log w @ tr \<and> R (fst (m w)) tr"
  shows "yields R m"
  using assms by (simp add: yields_def)

lemma yieldsD:
  assumes "yields R m"
  obtains tr where "log (snd (m w)) = log w @ tr" "R (fst (m w)) tr"
  using assms by (auto simp: yields_def)

lemma yields_weaken:
  assumes "yields R m" "\<And>r tr. R r tr \<Longrightarrow> R' r tr"
  shows "yields R' m"
  using assms by (fastforce simp: yields_def)

lemma yields_ret: "R (Inr x) [] \<Longrightarrow> yields R (ret x)"
  by (simp add: yields_def ret_def)

lemma yields_raise: "R (Inl e) [] \<Longrightarrow> yields R (raise e)"
  by (simp add: yields_def raise_def)

lemma yields_invoke:
  assumes "\<And>r. R r [ev r]"
  shows "yields R (invoke tool ev)"
  using assms by (auto simp: yields_def invoke_def emit_def split: prod.splits)

lemma yields_Exists:
  assumes "\<And>b. R (Inr b) [Ev_Exists p b]"
  shows "yields R (arcpy_Exists arc p)"
  using assms by (simp add: yields_def arcpy_Exists_def emit_def Let_def)

lemma yields_logging_info:
  "R (Inr ()) [LoggingInfo fmt args] \<Longrightarrow> yields R (logging_info fmt args)"
  by (simp add: yields_def logging_info_def emit_def)

lemma yields_logging_warning:
  "R (Inr ()) [LoggingWarning msg] \<Longrightarrow> yields R (logging_warning msg)"
  by (simp add: yields_def logging_warning_def emit_def)

lemma yields_build:
  assumes "\<And>r. R r []"
  shows "yields R (arcpy_build_field_mappings arc inputs)"
  using assms by (auto simp: yields_def arcpy_build_field_mappings_def split: sum.splits)

lemma yields_bnd:
  assumes m: "yields R1 m"
    and f: "\<And>x. yields (R2 x) (f x)"
    and err: "\<And>e tr. R1 (Inl e) tr \<Longrightarrow> R (Inl e) tr"
    and seq: "\<And>x tr r tr'. R1 (Inr x) tr \<Longrightarrow> R2 x r tr' \<Longrightarrow> R r (tr @ tr')"
  shows "yields R (bnd m f)"
proof (rule yieldsI)
  fix w
  obtain r w' where mw: "m w = (r, w')" by (cases "m w")
  from yieldsD [OF m, of w] mw obtain tr where tr: "log w' = log w @ tr" "R1 r tr"
    by auto
  show "\<exists>tr. log (snd (bnd m f w)) = log w @ tr \<and> R (fst (bnd m f w)) tr"
  proof (cases r)
    case (Inl e)
    then have "bnd m f w = (Inl e, w')" by (simp add: bnd_def mw)
    with tr Inl err show ?thesis by auto
  next
    case (Inr x)
    then have b: "bnd m f w = f x w'" by (simp add: bnd_def mw)
    from yieldsD [OF f, of x w'] obtain tr' where
      tr': "log (snd (f x w')) = log w' @ tr'" "R2 x (fst (f x w')) tr'"
      by auto
    from tr Inr tr' seq have "R (fst (f x w')) (tr @ tr')" by auto
    with b tr tr' show ?thesis by auto
  qed
qed

text \<open>Properties of the events alone that hold of no events and of two runs in a row.\<close>

lemma emits_bnd:
  assumes "Q []" "\<And>a b. Q a \<Longrightarrow> Q b \<Longrightarrow> Q (a @ b)"
    and "yields (\<lambda>_. Q) m" "\<And>x. yields (\<lambda>_. Q) (f x)"
  shows "yields (\<lambda>_. Q) (bnd m f)"
  by (rule yields_bnd [where ?R1.0 = "\<lambda>_. Q" and ?R2.0 = "\<lambda>_ _. Q"]) (use assms in auto)

lemma env_EnvManager: "env (snd (EnvManager settings body w)) = env w"
  by (simp add: EnvManager_def Let_def emit_def split: prod.splits)

lemma yields_if:
  "(c \<Longrightarrow> yields R a) \<Longrightarrow> (\<not> c \<Longrightarrow> yields R b) \<Longrightarrow> yields R (if c then a else b)"
  by simp

lemma only_bnd:
  assumes "yields (\<lambda>_ tr. \<forall>e \<in> set tr. K e) m" "\<And>x. yields (\<lambda>_ tr. \<forall>e \<in> set tr. K e) (f x)"
  shows "yields (\<lambda>_ tr. \<forall>e \<in> set tr. K e) (bnd m f)"
  by (rule yields_bnd [OF assms]) auto

lemma only_ensure_layer:
  assumes "\<And>b. K (Ev_Exists n b)" "\<And>b. K (Ev_Delete n b)"
    "\<And>wh b. K (Ev_MakeFeatureLayer d n wh b)"
  shows "yields (\<lambda>_ tr. \<forall>e \<in> set tr. K e) (ensure_layer arc d n wh')"
  unfolding ensure_layer_def arcpy_Delete_def arcpy_MakeFeatureLayer_def
  by (rule only_bnd yields_Exists yields_invoke yields_ret yields_if | simp add: assms)+

lemma only_validate_inputs:
  assumes "\<And>p b. K (Ev_Exists p b)"
  shows "yields (\<lambda>_ tr. \<forall>e \<in> set tr. K e) (validate_inputs arc a b c)"
  unfolding validate_inputs_def
  by (rule only_bnd yields_Exists yields_raise yields_ret yields_if | simp add: assms)+

lemma only_make_layers:
  assumes "\<And>p b. K (Ev_Exists p b)" "\<And>p b. K (Ev_Delete p b)"
    "\<And>d n wh b. K (Ev_MakeFeatureLayer d n wh b)"
  shows "yields (\<lambda>_ tr. \<forall>e \<in> set tr. K e) (make_layers arc ex a b c)"
  unfolding make_layers_def
  by (rule only_bnd only_ensure_layer yields_ret | simp add: assms)+

lemma only_select_by_parcels:
  assumes "\<And>ls ov sel ty b. K (Ev_SelectLayerByLocation ls ov sel ty b)"
    "\<And>l c. K (Ev_GetCount l c)" "\<And>fmt args. K (LoggingInfo fmt args)"
  shows "yields (\<lambda>_ tr. \<forall>e \<in> set tr. K e) (select_by_parcels arc pl sl ol)"
  unfolding select_by_parcels_def arcpy_SelectLayerByLocation_def arcpy_GetCount_def
  by (rule only_bnd yields_invoke yields_logging_info | simp add: assms)+

lemma only_merge_selected:
  assumes "\<And>p b. K (Ev_Exists p b)" "\<And>p b. K (Ev_Delete p b)"
    "\<And>ins out fms r. K (Ev_Merge ins out fms r)"
  shows "yields (\<lambda>_ tr. \<forall>e \<in> set tr. K e) (merge_selected P arc ws out sl ol)"
  unfolding merge_selected_def arcpy_Delete_def arcpy_Merge_def Let_def
  by (rule only_bnd yields_Exists yields_invoke yields_ret yields_if yields_build | simp add: assms)+

lemma only_remove_duplicates:
  assumes "\<And>p r. K (Ev_ListFields p r)" "\<And>p ks b. K (Ev_DeleteIdentical p ks b)"
    "\<And>msg. K (LoggingWarning msg)"
  shows "yields (\<lambda>_ tr. \<forall>e \<in> set tr. K e) (remove_duplicates arc p)"
  unfolding remove_duplicates_def arcpy_ListFields_def arcpy_DeleteIdentical_def
  by (rule only_bnd yields_invoke yields_ret yields_if yields_logging_warning | simp add: assms)+

lemma yields_case_prod3:
  assumes "\<And>a b c. yields R (f a b c)"
  shows "yields R (case x of (a, b, c) \<Rightarrow> f a b c)"
  using assms by (cases x) auto

text \<open>The body of the run, between the two events of the settings.\<close>

lemma EnvManager_log:
  fixes body :: "('s, 'a) prog"
  assumes "yields R1 body"
  shows "\<exists>tr. log (snd (EnvManager settings body w)) = log w @ EnvEnter settings # tr @ [EnvExit (env w)]
           \<and> R1 (fst (EnvManager settings body w)) tr"
proof -
  define w1 where "w1 = emit (EnvEnter settings) (w\<lparr>env := settings\<rparr>)"
  obtain r w' where bw: "body w1 = (r, w')" by (cases "body w1")
  from yieldsD [OF assms, of w1] bw obtain tr where "log w' = log w1 @ tr" "R1 r tr"
    by auto
  then show ?thesis
    using bw by (auto simp: EnvManager_def Let_def w1_def emit_def)
qed

lemma only_run_body:
  assumes "\<And>e. (\<forall>s. e \<noteq> EnvEnter s \<and> e \<noteq> EnvExit s) \<Longrightarrow> K e"
  shows "yields (\<lambda>_ tr. \<forall>e \<in> set tr. K e)
     (bnd (validate_inputs arc pp cp op) (\<lambda>_.
      bnd (make_layers arc ex pp cp op) (\<lambda>(parcels_lyr, sc_lyr, so_lyr).
      bnd (select_by_parcels arc parcels_lyr sc_lyr so_lyr) (\<lambda>_.
      bnd (merge_selected P arc ws out sc_lyr so_lyr) (\<lambda>out_fc_path.
      remove_duplicates arc out_fc_path)))))"
  by (rule only_bnd only_validate_inputs only_make_layers only_select_by_parcels
      only_merge_selected only_remove_duplicates yields_case_prod3 | simp add: assms)+

text \<open>
  Claim C9. A run of \<open>run_of2\<close> leaves the environment settings as it found them, whatever
  it returns or raises: the events of the run start with the entry into the settings of
  the run (workspace, scratch workspace, overwrite flag, parallelism), end with the exit
  that puts the saved settings back, and have no other entry or exit between the two.
\<close>

theorem run_of2_releases_settings:
  "env (snd (run_of2 P arc expression workspace_gdb storm_catchment storm_cleanout parcels
              output_fc scratch_gdb w)) = env w \<and>
   (\<exists>tr. log (snd (run_of2 P arc expression workspace_gdb storm_catchment storm_cleanout parcels
                     output_fc scratch_gdb w))
          = log w @ EnvEnter (of2_settings P workspace_gdb scratch_gdb) # tr @ [EnvExit (env w)]
        \<and> (\<forall>e \<in> set tr. \<forall>s. e \<noteq> EnvEnter s \<and> e \<noteq> EnvExit s))"
proof
  show "env (snd (run_of2 P arc expression workspace_gdb storm_catchment storm_cleanout parcels
              output_fc scratch_gdb w)) = env w"
    by (simp add: run_of2_def env_EnvManager)
next
  show "\<exists>tr. log (snd (run_of2 P arc expression workspace_gdb storm_catchment storm_cleanout parcels
                     output_fc scratch_gdb w))
          = log w @ EnvEnter (of2_settings P workspace_gdb scratch_gdb) # tr @ [EnvExit (env w)]
        \<and> (\<forall>e \<in> set tr. \<forall>s. e \<noteq> EnvEnter s \<and> e \<noteq> EnvExit s)"
    unfolding run_of2_def Let_def
    by (rule EnvManager_log [where ?R1.0 = "\<lambda>_ tr. \<forall>e \<in> set tr. \<forall>s. e \<noteq> EnvEnter s \<and> e \<noteq> EnvExit s"])
      (rule only_run_body, simp)
qed

lemma bnd_Exists:
  "bnd (arcpy_Exists arc p) f w =
     f (tool_Exists arc (env w) (eng w) p) (emit (Ev_Exists p (tool_Exists arc (env w) (eng w) p)) w)"
  by (simp add: bnd_def arcpy_Exists_def Let_def)

lemma bnd_raise: "bnd (raise e) f w = (Inl e, w)"
  by (simp add: bnd_def raise_def)

lemma bnd_ret: "bnd (ret x) f w = f x w"
  by (simp add: bnd_def ret_def)

lemma bnd_assoc: "bnd (bnd m g) f = bnd m (\<lambda>x. bnd (g x) f)"
  by (rule ext) (simp add: bnd_def split: prod.splits sum.splits)

lemma bnd_if: "bnd (if c then a else b) f = (if c then bnd a f else bnd b f)"
  by simp

text \<open>
  Claim C6. Under the settings of the run, the store is asked for the parcels, then the
  storm catchment, then the storm cleanout dataset, each by its resolved reference. The
  first of them that the store says does not exist ends the run with the
  \<open>FileNotFoundError\<close> that names it, and nothing else is called.
\<close>

theorem run_of2_missing_dataset:
  assumes E: "E = of2_settings P workspace_gdb scratch_gdb"
    and pp: "parcels_path = resolve_dataset P parcels (abspath P workspace_gdb)"
    and cp: "sc_path = resolve_dataset P storm_catchment (abspath P workspace_gdb)"
    and op: "so_path = resolve_dataset P storm_cleanout (abspath P workspace_gdb)"
    and r: "r = run_of2 P arc expression workspace_gdb storm_catchment storm_cleanout parcels
                  output_fc scratch_gdb w"
  shows "(\<not> tool_Exists arc E (eng w) parcels_path \<longrightarrow>
            fst r = Inl (FileNotFoundError (''Parcels dataset not found: '' @ parcels_path)) \<and>
            log (snd r) = log w @ [EnvEnter E, Ev_Exists parcels_path False, EnvExit (env w)]) \<and>
         (tool_Exists arc E (eng w) parcels_path \<and> \<not> tool_Exists arc E (eng w) sc_path \<longrightarrow>
            fst r = Inl (FileNotFoundError (''Storm Catchment dataset not found: '' @ sc_path)) \<and>
            log (snd r) = log w @ [EnvEnter E, Ev_Exists parcels_path True, Ev_Exists sc_path False,
                                   EnvExit (env w)]) \<and>
         (tool_Exists arc E (eng w) parcels_path \<and> tool_Exists arc E (eng w) sc_path
            \<and> \<not> tool_Exists arc E (eng w) so_path \<longrightarrow>
            fst r = Inl (FileNotFoundError (''Storm Cleanout dataset not found: '' @ so_path)) \<and>
            log (snd r) = log w @ [EnvEnter E, Ev_Exists parcels_path True, Ev_Exists sc_path True,
                                   Ev_Exists so_path False, EnvExit (env w)])"
  unfolding r run_of2_def EnvManager_def validate_inputs_def Let_def
  by (simp add: bnd_assoc bnd_if bnd_Exists bnd_raise bnd_ret emit_def E [symmetric] pp [symmetric]
      cp [symmetric] op [symmetric] raise_def)

lemma preceded_Nil: "preceded sel ok []"
  by (simp add: preceded_def)

lemma preceded_none: "\<forall>e \<in> set tr. \<not> sel e \<Longrightarrow> preceded sel ok tr"
  by (auto simp: preceded_def)

lemma preceded_append:
  assumes mono: "\<And>x pre e. ok pre e \<Longrightarrow> ok (x @ pre) e"
    and a: "preceded sel ok a" and b: "preceded sel ok b"
  shows "preceded sel ok (a @ b)"
  unfolding preceded_def
proof (intro allI impI, elim conjE)
  fix pre e post
  assume eq: "a @ b = pre @ e # post" and sel: "sel e"
  from eq consider us where "a = pre @ us" "us @ b = e # post"
    | us where "a @ us = pre" "b = us @ e # post"
    by (auto simp: append_eq_append_conv2)
  then show "ok pre e"
  proof cases
    case 1
    show ?thesis
    proof (cases us)
      case Nil
      with 1 have "b = [] @ e # post" "pre = a" by simp_all
      with b sel have "ok [] e" unfolding preceded_def by blast
      from mono [OF this, of a] \<open>pre = a\<close> show ?thesis by simp
    next
      case (Cons u us')
      with 1 have "a = pre @ e # us'" by simp
      with a sel show ?thesis unfolding preceded_def by blast
    qed
  next
    case 2
    with b sel have "ok us e" unfolding preceded_def by blast
    from mono [OF this, of a] 2 show ?thesis by simp
  qed
qed

lemma preceded_bnd:
  assumes "\<And>x pre e. ok pre e \<Longrightarrow> ok (x @ pre) e"
    and "yields (\<lambda>_. preceded sel ok) m" "\<And>x. yields (\<lambda>_. preceded sel ok) (f x)"
  shows "yields (\<lambda>_. preceded sel ok) (bnd m f)"
  by (rule emits_bnd [OF preceded_Nil preceded_append]) (use assms in auto)

lemma only_preceded:
  assumes "yields (\<lambda>_ tr. \<forall>e \<in> set tr. \<not> sel e) m"
  shows "yields (\<lambda>_. preceded sel ok) m"
  by (rule yields_weaken [OF assms]) (rule preceded_none)

text \<open>The three shapes of the events of \<open>ensure_layer\<close>.\<close>

lemma ensure_layer_events:
  "yields (\<lambda>r tr.
      (\<exists>ok. tr = [Ev_Exists n False, Ev_MakeFeatureLayer d n (case wh of None \<Rightarrow> [] | Some x \<Rightarrow> x) ok]
            \<and> (ok \<longleftrightarrow> r = Inr n) \<and> (ok \<or> (\<exists>e. r = Inl e)))
      \<or> (tr = [Ev_Exists n True, Ev_Delete n False] \<and> (\<exists>e. r = Inl e))
      \<or> (\<exists>ok. tr = [Ev_Exists n True, Ev_Delete n True,
                     Ev_MakeFeatureLayer d n (case wh of None \<Rightarrow> [] | Some x \<Rightarrow> x) ok]
            \<and> (ok \<longleftrightarrow> r = Inr n) \<and> (ok \<or> (\<exists>e. r = Inl e))))
     (ensure_layer arc d n wh)"
  by (auto simp: yields_def ensure_layer_def bnd_def arcpy_Exists_def arcpy_Delete_def
      arcpy_MakeFeatureLayer_def invoke_def emit_def ret_def succeeded_def Let_def
      split: prod.splits sum.splits)

lemma layer_ok_mono: "layer_ok A pre e \<Longrightarrow> layer_ok A (x @ pre) e"
  by (cases e) (auto simp: layer_ok_def)

lemma layer_bnd:
  assumes "yields (\<lambda>_. preceded is_make (layer_ok A)) m"
    "\<And>x. yields (\<lambda>_. preceded is_make (layer_ok A)) (f x)"
  shows "yields (\<lambda>_. preceded is_make (layer_ok A)) (bnd m f)"
  by (rule preceded_bnd [where ok = "layer_ok A"]) (use assms in \<open>auto intro: layer_ok_mono\<close>)

lemma ensure_layer_preceded:
  assumes "(d, n, case wh of None \<Rightarrow> [] | Some x \<Rightarrow> x) \<in> A"
  shows "yields (\<lambda>_. preceded is_make (layer_ok A)) (ensure_layer arc d n wh)"
  by (rule yields_weaken [OF ensure_layer_events])
    (use assms in \<open>auto simp: preceded_def layer_ok_def Cons_eq_append_conv append_eq_Cons_conv\<close>)


lemma yields_conj:
  assumes "yields R m" "yields R' m"
  shows "yields (\<lambda>r tr. R r tr \<and> R' r tr) m"
  unfolding yields_def
proof
  fix w
  from assms obtain tr tr' where "log (snd (m w)) = log w @ tr" "R (fst (m w)) tr"
    "log (snd (m w)) = log w @ tr'" "R' (fst (m w)) tr'"
    unfolding yields_def by blast
  then show "\<exists>tr. log (snd (m w)) = log w @ tr \<and> R (fst (m w)) tr \<and> R' (fst (m w)) tr"
    by auto
qed

text \<open>The selected events of a run that returns.\<close>

lemma returned_bnd:
  assumes "yields (\<lambda>r tr. (\<exists>x. r = Inr x) \<longrightarrow> filter sel tr = X1) m"
    and "\<And>x. yields (\<lambda>r tr. (\<exists>y. r = Inr y) \<longrightarrow> filter sel tr = X2) (f x)"
  shows "yields (\<lambda>r tr. (\<exists>y. r = Inr y) \<longrightarrow> filter sel tr = X1 @ X2) (bnd m f)"
  by (rule yields_bnd [OF assms]) auto

lemma only_returned:
  assumes "yields (\<lambda>_ tr. \<forall>e \<in> set tr. \<not> sel e) m"
  shows "yields (\<lambda>r tr. (\<exists>x. r = Inr x) \<longrightarrow> filter sel tr = []) m"
  by (rule yields_weaken [OF assms]) (simp add: filter_empty_conv)

lemma ensure_layer_returned:
  "yields (\<lambda>r tr. (\<exists>x. r = Inr x) \<longrightarrow>
       filter is_make tr = [Ev_MakeFeatureLayer d n (case wh of None \<Rightarrow> [] | Some x \<Rightarrow> x) True])
     (ensure_layer arc d n wh)"
  by (rule yields_weaken [OF ensure_layer_events]) auto

lemma make_layers_returned:
  "yields (\<lambda>r tr. (\<exists>x. r = Inr x) \<longrightarrow>
       filter is_make tr =
         [Ev_MakeFeatureLayer pp ''parcels_layer'' ex True] @
         [Ev_MakeFeatureLayer cp ''storm_catchment_layer'' [] True] @
         [Ev_MakeFeatureLayer op ''storm_cleanout_layer'' [] True] @ [])
     (make_layers arc ex pp cp op)"
  unfolding make_layers_def
  by (rule returned_bnd ensure_layer_returned [where wh = "Some ex", simplified]
      ensure_layer_returned [where wh = None, simplified] yields_ret | simp)+

lemma make_layers_preceded:
  assumes "(pp, ''parcels_layer'', ex) \<in> A" "(cp, ''storm_catchment_layer'', []) \<in> A"
    "(op, ''storm_cleanout_layer'', []) \<in> A"
  shows "yields (\<lambda>_. preceded is_make (layer_ok A)) (make_layers arc ex pp cp op)"
  unfolding make_layers_def
  by (rule layer_bnd ensure_layer_preceded yields_ret preceded_Nil
      | simp add: assms)+

lemma run_body_layers:
  assumes "(pp, ''parcels_layer'', ex) \<in> A" "(cp, ''storm_catchment_layer'', []) \<in> A"
    "(op, ''storm_cleanout_layer'', []) \<in> A"
  shows "yields (\<lambda>r tr. preceded is_make (layer_ok A) tr \<and>
            ((\<exists>x. r = Inr x) \<longrightarrow>
               filter is_make tr =
                 [] @ ([Ev_MakeFeatureLayer pp ''parcels_layer'' ex True] @
                       [Ev_MakeFeatureLayer cp ''storm_catchment_layer'' [] True] @
                       [Ev_MakeFeatureLayer op ''storm_cleanout_layer'' [] True] @ []) @ [] @ [] @ []))
     (bnd (validate_inputs arc pp cp op) (\<lambda>_.
      bnd (make_layers arc ex pp cp op) (\<lambda>(parcels_lyr, sc_lyr, so_lyr).
      bnd (select_by_parcels arc parcels_lyr sc_lyr so_lyr) (\<lambda>_.
      bnd (merge_selected P arc ws out sc_lyr so_lyr) (\<lambda>out_fc_path.
      remove_duplicates arc out_fc_path)))))"
proof (rule yields_conj)
  show "yields (\<lambda>r. preceded is_make (layer_ok A))
     (bnd (validate_inputs arc pp cp op) (\<lambda>_.
      bnd (make_layers arc ex pp cp op) (\<lambda>(parcels_lyr, sc_lyr, so_lyr).
      bnd (select_by_parcels arc parcels_lyr sc_lyr so_lyr) (\<lambda>_.
      bnd (merge_selected P arc ws out sc_lyr so_lyr) (\<lambda>out_fc_path.
      remove_duplicates arc out_fc_path)))))"
    by (rule layer_bnd make_layers_preceded yields_case_prod3
        only_preceded [OF only_validate_inputs] only_preceded [OF only_select_by_parcels]
        only_preceded [OF only_merge_selected] only_preceded [OF only_remove_duplicates]
        | simp add: assms)+
next
  show "yields (\<lambda>r tr. (\<exists>x. r = Inr x) \<longrightarrow>
               filter is_make tr =
                 [] @ ([Ev_MakeFeatureLayer pp ''parcels_layer'' ex True] @
                       [Ev_MakeFeatureLayer cp ''storm_catchment_layer'' [] True] @
                       [Ev_MakeFeatureLayer op ''storm_cleanout_layer'' [] True] @ []) @ [] @ [] @ [])
     (bnd (validate_inputs arc pp cp op) (\<lambda>_.
      bnd (make_layers arc ex pp cp op) (\<lambda>(parcels_lyr, sc_lyr, so_lyr).
      bnd (select_by_parcels arc parcels_lyr sc_lyr so_lyr) (\<lambda>_.
      bnd (merge_selected P arc ws out sc_lyr so_lyr) (\<lambda>out_fc_path.
      remove_duplicates arc out_fc_path)))))"
    by (rule returned_bnd make_layers_returned yields_case_prod3
        only_returned [OF only_validate_inputs] only_returned [OF only_select_by_parcels]
        only_returned [OF only_merge_selected] only_returned [OF only_remove_duplicates]
        | simp)+
qed

lemma preceded_wrap:
  assumes "\<And>x pre e. ok pre e \<Longrightarrow> ok (x @ pre) e" "\<not> sel a" "\<not> sel b" "preceded sel ok tr"
  shows "preceded sel ok (a # tr @ [b])"
proof -
  have "preceded sel ok ([a] @ tr @ [b])"
    by (intro preceded_append assms preceded_none) (simp_all add: assms)
  then show ?thesis by simp
qed

lemma layers_events_of_run:
  assumes "log (snd (run_of2 P arc expression workspace_gdb storm_catchment storm_cleanout parcels
                      output_fc scratch_gdb w)) = log w @ tr"
    and "parcels_path = resolve_dataset P parcels (abspath P workspace_gdb)"
    and "sc_path = resolve_dataset P storm_catchment (abspath P workspace_gdb)"
    and "so_path = resolve_dataset P storm_cleanout (abspath P workspace_gdb)"
  shows "(\<forall>pre d n wh ok post. tr = pre @ Ev_MakeFeatureLayer d n wh ok # post \<longrightarrow>
            (d, n, wh) \<in> {(parcels_path, ''parcels_layer'', expression),
                          (sc_path, ''storm_catchment_layer'', []),
                          (so_path, ''storm_cleanout_layer'', [])}
            \<and> (\<exists>pre'. pre = pre' @ [Ev_Exists n False]
                     \<or> pre = pre' @ [Ev_Exists n True, Ev_Delete n True])) \<and>
         (\<forall>out. fst (run_of2 P arc expression workspace_gdb storm_catchment storm_cleanout parcels
                       output_fc scratch_gdb w) = Inr out \<longrightarrow>
            filter is_make tr =
              [Ev_MakeFeatureLayer parcels_path ''parcels_layer'' expression True,
               Ev_MakeFeatureLayer sc_path ''storm_catchment_layer'' [] True,
               Ev_MakeFeatureLayer so_path ''storm_cleanout_layer'' [] True])"
proof -
  let ?A = "{(parcels_path, ''parcels_layer'', expression),
             (sc_path, ''storm_catchment_layer'', []),
             (so_path, ''storm_cleanout_layer'', [])}"
  let ?run = "run_of2 P arc expression workspace_gdb storm_catchment storm_cleanout parcels
                output_fc scratch_gdb w"
  have "\<exists>tr'. log (snd ?run) = log w @ EnvEnter (of2_settings P workspace_gdb scratch_gdb) # tr'
                   @ [EnvExit (env w)]
          \<and> (preceded is_make (layer_ok ?A) tr' \<and>
              ((\<exists>x. fst ?run = Inr x) \<longrightarrow>
                 filter is_make tr' =
                   [] @ ([Ev_MakeFeatureLayer parcels_path ''parcels_layer'' expression True] @
                       [Ev_MakeFeatureLayer sc_path ''storm_catchment_layer'' [] True] @
                       [Ev_MakeFeatureLayer so_path ''storm_cleanout_layer'' [] True] @ [])
                     @ [] @ [] @ []))"
    unfolding run_of2_def Let_def assms(2-4)
    by (rule EnvManager_log) (rule run_body_layers, simp_all)
  then obtain tr' where tr': "log (snd ?run) = log w @ EnvEnter (of2_settings P workspace_gdb scratch_gdb)
        # tr' @ [EnvExit (env w)]"
    "preceded is_make (layer_ok ?A) tr'"
    "(\<exists>x. fst ?run = Inr x) \<longrightarrow> filter is_make tr' =
        [Ev_MakeFeatureLayer parcels_path ''parcels_layer'' expression True,
         Ev_MakeFeatureLayer sc_path ''storm_catchment_layer'' [] True,
         Ev_MakeFeatureLayer so_path ''storm_cleanout_layer'' [] True]"
    by auto
  from tr'(1) assms(1) have tr: "tr = EnvEnter (of2_settings P workspace_gdb scratch_gdb) # tr'
        @ [EnvExit (env w)]"
    by simp
  have "preceded is_make (layer_ok ?A) tr"
    unfolding tr by (rule preceded_wrap [where ok = "layer_ok ?A"]) (simp_all add: tr'(2) layer_ok_mono)
  then have "\<forall>pre d n wh ok post. tr = pre @ Ev_MakeFeatureLayer d n wh ok # post \<longrightarrow>
            (d, n, wh) \<in> ?A
            \<and> (\<exists>pre'. pre = pre' @ [Ev_Exists n False]
                     \<or> pre = pre' @ [Ev_Exists n True, Ev_Delete n True])"
    unfolding preceded_def layer_ok_def by fastforce
  moreover have "\<forall>out. fst ?run = Inr out \<longrightarrow>
            filter is_make tr =
              [Ev_MakeFeatureLayer parcels_path ''parcels_layer'' expression True,
               Ev_MakeFeatureLayer sc_path ''storm_catchment_layer'' [] True,
               Ev_MakeFeatureLayer so_path ''storm_cleanout_layer'' [] True]"
    using tr'(3) by (simp add: tr)
  ultimately show ?thesis by blast
qed

subsection \<open>Runs on the small store\<close>

lemmas of2_defs =
  small_run_def run_of2_def small_world_def small_arcpy_def bare_arcpy_def failing_arcpy_def
  small_store_def stale_store_def small_env_def small_settings_def small_mappings_def
  posixpath_def EnvManager_def of2_settings_def resolve_dataset_def posix_isabs_def posix_join_def
  posix_dirname_def lower_def lower_char_def startswith_def validate_inputs_def make_layers_def
  select_by_parcels_def merge_selected_def remove_duplicates_def bnd_def ret_def raise_def emit_def
  invoke_def arcpy_Exists_def arcpy_Delete_def arcpy_MakeFeatureLayer_def
  arcpy_SelectLayerByLocation_def arcpy_GetCount_def arcpy_Merge_def arcpy_ListFields_def
  arcpy_DeleteIdentical_def logging_info_def logging_warning_def ensure_layer_def
  arcpy_build_field_mappings_def build_field_mappings_def desired_def FieldMap_def addInputField_def
  store_fields_def succeeded_def outcome_def Let_def

lemma small_run_fresh:
  "fst (small_run small_arcpy ''Parcels'' small_store) = Inr ''/gdb/out''"
  "log (snd (small_run small_arcpy ''Parcels'' small_store)) =
     [EnvEnter small_settings,
      Ev_Exists ''/gdb/Parcels'' True, Ev_Exists ''/gdb/Catchment'' True,
      Ev_Exists ''/gdb/Cleanout'' True,
      Ev_Exists ''parcels_layer'' False,
      Ev_MakeFeatureLayer ''/gdb/Parcels'' ''parcels_layer'' ''PARCEL_NUMBER = 1'' True,
      Ev_Exists ''storm_catchment_layer'' False,
      Ev_MakeFeatureLayer ''/gdb/Catchment'' ''storm_catchment_layer'' [] True,
      Ev_Exists ''storm_cleanout_layer'' False,
      Ev_MakeFeatureLayer ''/gdb/Cleanout'' ''storm_cleanout_layer'' [] True,
      Ev_SelectLayerByLocation [''storm_catchment_layer'', ''storm_cleanout_layer''] ''INTERSECT''
        ''parcels_layer'' ''NEW_SELECTION'' True,
      Ev_GetCount ''storm_catchment_layer'' (Some 0),
      Ev_GetCount ''storm_cleanout_layer'' (Some 0),
      LoggingInfo ''Selected %d catchment and %d cleanout features'' [0, 0],
      Ev_Exists ''/gdb/out'' False,
      Ev_Merge [''storm_catchment_layer'', ''storm_cleanout_layer''] ''/gdb/out'' small_mappings
        (Some ''/gdb/out''),
      Ev_ListFields ''/gdb/out''
        (Some [\<lparr>name = ''OrigPlan'', aliasName = ''OrigPlan''\<rparr>,
               \<lparr>name = ''DocLink'', aliasName = ''DocLink''\<rparr>]),
      Ev_DeleteIdentical ''/gdb/out'' [''OrigPlan''] True,
      EnvExit small_env]"
  by (simp_all add: of2_defs)

lemma small_run_bare:
  "fst (small_run bare_arcpy ''Parcels'' small_store) = Inr ''/gdb/out''"
  "log (snd (small_run bare_arcpy ''Parcels'' small_store)) =
     [EnvEnter small_settings,
      Ev_Exists ''/gdb/Parcels'' True, Ev_Exists ''/gdb/Catchment'' True,
      Ev_Exists ''/gdb/Cleanout'' True,
      Ev_Exists ''parcels_layer'' False,
      Ev_MakeFeatureLayer ''/gdb/Parcels'' ''parcels_layer'' ''PARCEL_NUMBER = 1'' True,
      Ev_Exists ''storm_catchment_layer'' False,
      Ev_MakeFeatureLayer ''/gdb/Catchment'' ''storm_catchment_layer'' [] True,
      Ev_Exists ''storm_cleanout_layer'' False,
      Ev_MakeFeatureLayer ''/gdb/Cleanout'' ''storm_cleanout_layer'' [] True,
      Ev_SelectLayerByLocation [''storm_catchment_layer'', ''storm_cleanout_layer''] ''INTERSECT''
        ''parcels_layer'' ''NEW_SELECTION'' True,
      Ev_GetCount ''storm_catchment_layer'' (Some 0),
      Ev_GetCount ''storm_cleanout_layer'' (Some 0),
      LoggingInfo ''Selected %d catchment and %d cleanout features'' [0, 0],
      Ev_Exists ''/gdb/out'' False,
      Ev_Merge [''storm_catchment_layer'', ''storm_cleanout_layer''] ''/gdb/out'' small_mappings
        (Some ''/gdb/out''),
      Ev_ListFields ''/gdb/out'' (Some []),
      LoggingWarning skip_message,
      EnvExit small_env]"
  by (simp_all add: of2_defs)

lemma small_run_stale:
  "fst (small_run small_arcpy ''Parcels'' stale_store) = Inr ''/gdb/out''"
  "log (snd (small_run small_arcpy ''Parcels'' stale_store)) =
     [EnvEnter small_settings,
      Ev_Exists ''/gdb/Parcels'' True, Ev_Exists ''/gdb/Catchment'' True,
      Ev_Exists ''/gdb/Cleanout'' True,
      Ev_Exists ''parcels_layer'' True, Ev_Delete ''parcels_layer'' True,
      Ev_MakeFeatureLayer ''/gdb/Parcels'' ''parcels_layer'' ''PARCEL_NUMBER = 1'' True,
      Ev_Exists ''storm_catchment_layer'' False,
      Ev_MakeFeatureLayer ''/gdb/Catchment'' ''storm_catchment_layer'' [] True,
      Ev_Exists ''storm_cleanout_layer'' False,
      Ev_MakeFeatureLayer ''/gdb/Cleanout'' ''storm_cleanout_layer'' [] True,
      Ev_SelectLayerByLocation [''storm_catchment_layer'', ''storm_cleanout_layer''] ''INTERSECT''
        ''parcels_layer'' ''NEW_SELECTION'' True,
      Ev_GetCount ''storm_catchment_layer'' (Some 0),
      Ev_GetCount ''storm_cleanout_layer'' (Some 0),
      LoggingInfo ''Selected %d catchment and %d cleanout features'' [0, 0],
      Ev_Exists ''/gdb/out'' True, Ev_Delete ''/gdb/out'' True,
      Ev_Merge [''storm_catchment_layer'', ''storm_cleanout_layer''] ''/gdb/out'' small_mappings
        (Some ''/gdb/out''),
      Ev_ListFields ''/gdb/out''
        (Some [\<lparr>name = ''OrigPlan'', aliasName = ''OrigPlan''\<rparr>,
               \<lparr>name = ''DocLink'', aliasName = ''DocLink''\<rparr>]),
      Ev_DeleteIdentical ''/gdb/out'' [''OrigPlan''] True,
      EnvExit small_env]"
  by (simp_all add: of2_defs)

lemma small_run_failing:
  "fst (small_run failing_arcpy ''Parcels'' small_store) = Inl (ExecuteError ''ERROR 999999'')"
  "log (snd (small_run failing_arcpy ''Parcels'' small_store)) =
     [EnvEnter small_settings,
      Ev_Exists ''/gdb/Parcels'' True, Ev_Exists ''/gdb/Catchment'' True,
      Ev_Exists ''/gdb/Cleanout'' True,
      Ev_Exists ''parcels_layer'' False,
      Ev_MakeFeatureLayer ''/gdb/Parcels'' ''parcels_layer'' ''PARCEL_NUMBER = 1'' True,
      Ev_Exists ''storm_catchment_layer'' False,
      Ev_MakeFeatureLayer ''/gdb/Catchment'' ''storm_catchment_layer'' [] True,
      Ev_Exists ''storm_cleanout_layer'' False,
      Ev_MakeFeatureLayer ''/gdb/Cleanout'' ''storm_cleanout_layer'' [] True,
      Ev_SelectLayerByLocation [''storm_catchment_layer'', ''storm_cleanout_layer''] ''INTERSECT''
        ''parcels_layer'' ''NEW_SELECTION'' False,
      EnvExit small_env]"
  by (simp_all add: of2_defs)

lemma small_run_missing:
  "fst (small_run small_arcpy ''Lots'' small_store)
     = Inl (FileNotFoundError ''Parcels dataset not found: /gdb/Lots'')"
  "log (snd (small_run small_arcpy ''Lots'' small_store)) =
     [EnvEnter small_settings, Ev_Exists ''/gdb/Lots'' False, EnvExit small_env]"
  by (simp_all add: of2_defs)

text \<open>
  A run that returns, a run that misses its parcels and a run whose selection fails:
  each leaves the settings it found.
\<close>

theorem run_of2_releases_settings_witness:
  "(fst (small_run small_arcpy ''Parcels'' small_store) = Inr ''/gdb/out''
      \<and> env (snd (small_run small_arcpy ''Parcels'' small_store)) = small_env) \<and>
   (fst (small_run small_arcpy ''Lots'' small_store)
        = Inl (FileNotFoundError ''Parcels dataset not found: /gdb/Lots'')
      \<and> env (snd (small_run small_arcpy ''Lots'' small_store)) = small_env) \<and>
   (fst (small_run failing_arcpy ''Parcels'' small_store) = Inl (ExecuteError ''ERROR 999999'')
      \<and> env (snd (small_run failing_arcpy ''Parcels'' small_store)) = small_env)"
proof -
  have "env (snd (small_run arc parcels s)) = small_env" for arc parcels s
    using run_of2_releases_settings [where P = "posixpath id" and arc = arc
        and expression = "''PARCEL_NUMBER = 1''" and workspace_gdb = "''/gdb''"
        and storm_catchment = "''Catchment''" and storm_cleanout = "''Cleanout''"
        and parcels = parcels and output_fc = "''out''" and scratch_gdb = None
        and w = "small_world s"]
    by (simp add: small_run_def small_world_def)
  then show ?thesis
    by (simp add: small_run_fresh(1) small_run_missing(1) small_run_failing(1))
qed

text \<open>Runs without the parcels, without the catchment, without the cleanout, and without all.\<close>

theorem run_of2_missing_dataset_witness:
  "fst (run_of2 (posixpath id) small_arcpy ''PARCEL_NUMBER = 1'' ''/gdb'' ''Catchment'' ''Cleanout''
          ''Lots'' ''out'' None (small_world small_store))
     = Inl (FileNotFoundError ''Parcels dataset not found: /gdb/Lots'') \<and>
   fst (run_of2 (posixpath id) small_arcpy ''PARCEL_NUMBER = 1'' ''/gdb'' ''Basins'' ''Cleanout''
          ''Parcels'' ''out'' None (small_world small_store))
     = Inl (FileNotFoundError ''Storm Catchment dataset not found: /gdb/Basins'') \<and>
   fst (run_of2 (posixpath id) small_arcpy ''PARCEL_NUMBER = 1'' ''/gdb'' ''Catchment'' ''Drains''
          ''Parcels'' ''out'' None (small_world small_store))
     = Inl (FileNotFoundError ''Storm Cleanout dataset not found: /gdb/Drains'') \<and>
   fst (run_of2 (posixpath id) small_arcpy ''PARCEL_NUMBER = 1'' ''/gdb'' ''Basins'' ''Drains''
          ''Lots'' ''out'' None (small_world small_store))
     = Inl (FileNotFoundError ''Parcels dataset not found: /gdb/Lots'')"
proof -
  note ev = small_world_def small_arcpy_def small_store_def store_fields_def of2_settings_def
    posixpath_def resolve_dataset_def posix_isabs_def posix_join_def lower_def lower_char_def
    startswith_def Let_def
  show ?thesis
    using run_of2_missing_dataset [OF refl refl refl refl refl, where P = "posixpath id"
        and arc = small_arcpy and expression = "''PARCEL_NUMBER = 1''" and workspace_gdb = "''/gdb''"
        and storm_catchment = "''Catchment''" and storm_cleanout = "''Cleanout''"
        and parcels = "''Lots''" and output_fc = "''out''" and scratch_gdb = None
        and w = "small_world small_store"]
      run_of2_missing_dataset [OF refl refl refl refl refl, where P = "posixpath id"
        and arc = small_arcpy and expression = "''PARCEL_NUMBER = 1''" and workspace_gdb = "''/gdb''"
        and storm_catchment = "''Basins''" and storm_cleanout = "''Cleanout''"
        and parcels = "''Parcels''" and output_fc = "''out''" and scratch_gdb = None
        and w = "small_world small_store"]
      run_of2_missing_dataset [OF refl refl refl refl refl, where P = "posixpath id"
        and arc = small_arcpy and expression = "''PARCEL_NUMBER = 1''" and workspace_gdb = "''/gdb''"
        and storm_catchment = "''Catchment''" and storm_cleanout = "''Drains''"
        and parcels = "''Parcels''" and output_fc = "''out''" and scratch_gdb = None
        and w = "small_world small_store"]
      run_of2_missing_dataset [OF refl refl refl refl refl, where P = "posixpath id"
        and arc = small_arcpy and expression = "''PARCEL_NUMBER = 1''" and workspace_gdb = "''/gdb''"
        and storm_catchment = "''Basins''" and storm_cleanout = "''Drains''"
        and parcels = "''Lots''" and output_fc = "''out''" and scratch_gdb = None
        and w = "small_world small_store"]
    by (simp add: ev)
qed

subsection \<open>The merge\<close>

lemma posix_dirname_nonempty: "posix_dirname p \<noteq> [] \<longleftrightarrow> CHR ''/'' \<in> set p"
proof -
  define head where "head = rev (dropWhile (\<lambda>c. c \<noteq> CHR ''/'') (rev p))"
  have h: "head \<noteq> [] \<longleftrightarrow> CHR ''/'' \<in> set p"
    by (auto simp: head_def dropWhile_eq_Nil_conv)
  have "rev (dropWhile (\<lambda>c. c = CHR ''/'') (rev head)) \<noteq> []"
    if "head \<noteq> replicate (length head) (CHR ''/'')"
  proof -
    from that have "\<exists>c \<in> set head. c \<noteq> CHR ''/''"
      by (metis replicate_length_same)
    then show ?thesis by (auto simp: dropWhile_eq_Nil_conv)
  qed
  then show ?thesis
    using h by (auto simp: posix_dirname_def head_def [symmetric] Let_def)
qed

lemma merge_ok_mono: "merge_ok o' ins pre e \<Longrightarrow> merge_ok o' ins (x @ pre) e"
  by (cases e) (auto simp: merge_ok_def)

lemma merge_bnd:
  assumes "yields (\<lambda>_. preceded is_merge (merge_ok o' ins)) m"
    "\<And>x. yields (\<lambda>_. preceded is_merge (merge_ok o' ins)) (f x)"
  shows "yields (\<lambda>_. preceded is_merge (merge_ok o' ins)) (bnd m f)"
  by (rule preceded_bnd [where ok = "merge_ok o' ins"]) (use assms in \<open>auto intro: merge_ok_mono\<close>)

text \<open>The shapes of the events of the merge, with its result.\<close>

lemma merge_selected_events:
  fixes arc :: "'s arcpy"
  assumes o: "out_path = (if dirname P output_fc \<noteq> [] then output_fc else join P ws output_fc)"
  shows "yields (merge_events out_path [sl, ol]) (merge_selected P arc ws output_fc sl ol)"
proof (rule yieldsI)
  fix w :: "'s world"
  let ?lk = "tool_Field arc (env w) (eng w)"
  let ?m = "merge_selected P arc ws output_fc sl ol w"
  show "\<exists>tr. log (snd ?m) = log w @ tr \<and> merge_events out_path [sl, ol] (fst ?m) tr"
  proof (cases "build_field_mappings ?lk [sl, ol]")
    case (Inl e)
    then show ?thesis
      by (simp add: merge_selected_def bnd_def arcpy_build_field_mappings_def Let_def merge_events_def)
  next
    case (Inr fms)
    obtain r s' where mg: "tool_Merge arc (env w) (eng w) [sl, ol] out_path fms = (r, s')"
      by (cases "tool_Merge arc (env w) (eng w) [sl, ol] out_path fms")
    show ?thesis
    proof (cases "tool_Exists arc (env w) (eng w) out_path")
      case False
      with Inr mg have "log (snd ?m) = log w @ [Ev_Exists out_path False, Ev_Merge [sl, ol] out_path fms (outcome r)]"
        "fst ?m = r"
        by (simp_all add: merge_selected_def o [symmetric] bnd_def arcpy_build_field_mappings_def
            arcpy_Exists_def arcpy_Merge_def invoke_def emit_def ret_def Let_def)
      moreover have "case outcome r of None \<Rightarrow> \<exists>e. r = Inl e | Some p \<Rightarrow> r = Inr p"
        by (cases r) (simp_all add: outcome_def)
      ultimately show ?thesis
        using Inr unfolding merge_events_def by blast
    next
      case True
      obtain d s1 where dl: "tool_Delete arc (env w) (eng w) out_path = (d, s1)"
        by (cases "tool_Delete arc (env w) (eng w) out_path")
      show ?thesis
      proof (cases d)
        case (Inl e)
        with True Inr dl have "log (snd ?m) = log w @ [Ev_Exists out_path True, Ev_Delete out_path False]"
          "fst ?m = Inl e"
          by (simp_all add: merge_selected_def o [symmetric] bnd_def arcpy_build_field_mappings_def
              arcpy_Exists_def arcpy_Delete_def invoke_def emit_def succeeded_def Let_def)
        then show ?thesis
          using Inr unfolding merge_events_def by blast
      next
        case u: (Inr u)
        obtain r' s2 where mg': "tool_Merge arc (env w) s1 [sl, ol] out_path fms = (r', s2)"
          by (cases "tool_Merge arc (env w) s1 [sl, ol] out_path fms")
        with True Inr dl u have "log (snd ?m) = log w @ [Ev_Exists out_path True, Ev_Delete out_path True,
            Ev_Merge [sl, ol] out_path fms (outcome r')]" "fst ?m = r'"
          by (simp_all add: merge_selected_def o [symmetric] bnd_def arcpy_build_field_mappings_def
              arcpy_Exists_def arcpy_Delete_def arcpy_Merge_def invoke_def emit_def succeeded_def Let_def)
        moreover have "case outcome r' of None \<Rightarrow> \<exists>e. r' = Inl e | Some p \<Rightarrow> r' = Inr p"
          by (cases r') (simp_all add: outcome_def)
        ultimately show ?thesis
          using Inr unfolding merge_events_def by blast
      qed
    qed
  qed
qed

lemma merge_events_preceded:
  "merge_events out_path ins r tr \<Longrightarrow> preceded is_merge (merge_ok out_path ins) tr"
  unfolding merge_events_def preceded_def merge_ok_def
  by (auto simp: Cons_eq_append_conv append_eq_Cons_conv) blast+

lemma merge_events_returned:
  "merge_events out_path ins (Inr p) tr \<Longrightarrow> \<exists>fms. Ev_Merge ins out_path fms (Some p) \<in> set tr"
  unfolding merge_events_def
  by (auto split: option.splits)


lemma ensure_layer_result: "ensure_layer arc d n wh w = (Inr x, w') \<Longrightarrow> x = n"
  by (auto simp: ensure_layer_def bnd_def ret_def split: prod.splits sum.splits)

lemma make_layers_result:
  "fst (make_layers arc ex pp cp op w) = Inr x
     \<Longrightarrow> x = (''parcels_layer'', ''storm_catchment_layer'', ''storm_cleanout_layer'')"
  by (auto simp: make_layers_def bnd_def ret_def split: prod.splits sum.splits
      dest!: ensure_layer_result)

lemma remove_duplicates_result: "fst (remove_duplicates arc p w) = Inr x \<Longrightarrow> x = p"
  by (auto simp: remove_duplicates_def bnd_def ret_def split: prod.splits sum.splits)

lemma yields_result:
  assumes "yields R m" "\<And>w x. fst (m w) = Inr x \<Longrightarrow> S x"
  shows "yields (\<lambda>r tr. R r tr \<and> (\<forall>x. r = Inr x \<longrightarrow> S x)) m"
  using assms unfolding yields_def by blast

lemma merge_run_quiet:
  assumes "\<forall>e \<in> set tr. \<not> is_merge e"
  shows "merge_run out_path ins (Inl e) tr"
    and "merge_run out_path ins r tr' \<Longrightarrow> merge_run out_path ins r (tr @ tr')"
proof -
  show "merge_run out_path ins (Inl e) tr"
    using assms by (simp add: merge_run_def preceded_none)
  assume "merge_run out_path ins r tr'"
  then show "merge_run out_path ins r (tr @ tr')"
    using assms preceded_append [where ok = "merge_ok out_path ins" and sel = is_merge
        and a = tr and b = tr', OF merge_ok_mono preceded_none]
    unfolding merge_run_def by auto
qed

lemma merge_run_later:
  assumes "yields (\<lambda>_ tr. \<forall>e \<in> set tr. \<not> is_merge e) m"
    and "\<And>x. yields (merge_run out_path ins) (f x)"
  shows "yields (merge_run out_path ins) (bnd m f)"
  by (rule yields_bnd [OF assms]) (auto intro: merge_run_quiet)

lemma merge_then_remove:
  assumes "out_path = (if dirname P output_fc \<noteq> [] then output_fc else join P ws output_fc)"
  shows "yields (merge_run out_path [sl, ol])
     (bnd (merge_selected P arc ws output_fc sl ol) (\<lambda>out_fc_path. remove_duplicates arc out_fc_path))"
proof (rule yields_bnd [where ?R1.0 = "merge_events out_path [sl, ol]"
      and ?R2.0 = "\<lambda>x r tr. (\<forall>e \<in> set tr. \<not> is_merge e) \<and> (\<forall>p. r = Inr p \<longrightarrow> p = x)"])
  show "yields (merge_events out_path [sl, ol]) (merge_selected P arc ws output_fc sl ol)"
    by (rule merge_selected_events [OF assms])
next
  fix x
  show "yields (\<lambda>r tr. (\<forall>e \<in> set tr. \<not> is_merge e) \<and> (\<forall>p. r = Inr p \<longrightarrow> p = x))
          (remove_duplicates arc x)"
    by (rule yields_result [OF only_remove_duplicates]) (simp_all add: remove_duplicates_result)
next
  fix e :: exn and tr
  assume "merge_events out_path [sl, ol] (Inl e) tr"
  then show "merge_run out_path [sl, ol] (Inl e) tr"
    by (simp add: merge_run_def merge_events_preceded)
next
  fix x tr and r :: "exn + string" and tr'
  assume a: "merge_events out_path [sl, ol] (Inr x) tr"
    and b: "(\<forall>e \<in> set tr'. \<not> is_merge e) \<and> (\<forall>p. r = Inr p \<longrightarrow> p = x)"
  have "preceded is_merge (merge_ok out_path [sl, ol]) (tr @ tr')"
    using a b by (intro preceded_append preceded_none merge_ok_mono merge_events_preceded) auto
  moreover have "\<exists>fms. Ev_Merge [sl, ol] out_path fms (Some p) \<in> set (tr @ tr')" if "r = Inr p" for p
    using a b that merge_events_returned [of out_path "[sl, ol]" x tr] by auto
  ultimately show "merge_run out_path [sl, ol] r (tr @ tr')"
    by (simp add: merge_run_def)
qed

lemma run_body_merges:
  assumes "out_path = (if dirname P output_fc \<noteq> [] then output_fc else join P ws output_fc)"
  shows "yields (merge_run out_path [''storm_catchment_layer'', ''storm_cleanout_layer''])
     (bnd (validate_inputs arc pp cp op) (\<lambda>_.
      bnd (make_layers arc ex pp cp op) (\<lambda>(parcels_lyr, sc_lyr, so_lyr).
      bnd (select_by_parcels arc parcels_lyr sc_lyr so_lyr) (\<lambda>_.
      bnd (merge_selected P arc ws output_fc sc_lyr so_lyr) (\<lambda>out_fc_path.
      remove_duplicates arc out_fc_path)))))"
proof (rule merge_run_later)
  show "yields (\<lambda>_ tr. \<forall>e \<in> set tr. \<not> is_merge e) (validate_inputs arc pp cp op)"
    by (rule only_validate_inputs) simp
next
  fix u :: unit
  let ?ins = "[''storm_catchment_layer'', ''storm_cleanout_layer'']"
  show "yields (merge_run out_path ?ins)
     (bnd (make_layers arc ex pp cp op) (\<lambda>(parcels_lyr, sc_lyr, so_lyr).
      bnd (select_by_parcels arc parcels_lyr sc_lyr so_lyr) (\<lambda>_.
      bnd (merge_selected P arc ws output_fc sc_lyr so_lyr) (\<lambda>out_fc_path.
      remove_duplicates arc out_fc_path))))"
  proof (rule yields_bnd [where
        ?R1.0 = "\<lambda>r tr. (\<forall>e \<in> set tr. \<not> is_merge e) \<and>
           (\<forall>x. r = Inr x \<longrightarrow> x = (''parcels_layer'', ''storm_catchment_layer'', ''storm_cleanout_layer''))"
        and ?R2.0 = "\<lambda>x. merge_run out_path [fst (snd x), snd (snd x)]"])
    show "yields (\<lambda>r tr. (\<forall>e \<in> set tr. \<not> is_merge e) \<and>
           (\<forall>x. r = Inr x \<longrightarrow> x = (''parcels_layer'', ''storm_catchment_layer'', ''storm_cleanout_layer'')))
         (make_layers arc ex pp cp op)"
      by (rule yields_result [OF only_make_layers]) (simp_all add: make_layers_result)
  next
    fix x :: "string \<times> string \<times> string"
    obtain pl sl ol where x: "x = (pl, sl, ol)" by (cases x)
    have "yields (merge_run out_path [sl, ol])
       (bnd (select_by_parcels arc pl sl ol) (\<lambda>_.
        bnd (merge_selected P arc ws output_fc sl ol) (\<lambda>out_fc_path.
        remove_duplicates arc out_fc_path)))"
      by (rule merge_run_later [OF only_select_by_parcels merge_then_remove [OF assms]]) simp_all
    then show "yields (merge_run out_path [fst (snd x), snd (snd x)])
       (case x of (parcels_lyr, sc_lyr, so_lyr) \<Rightarrow>
        bnd (select_by_parcels arc parcels_lyr sc_lyr so_lyr) (\<lambda>_.
        bnd (merge_selected P arc ws output_fc sc_lyr so_lyr) (\<lambda>out_fc_path.
        remove_duplicates arc out_fc_path)))"
      by (simp add: x)
  next
    fix e :: exn and tr
    assume "(\<forall>e \<in> set tr. \<not> is_merge e) \<and>
           (\<forall>x. Inl e = Inr x \<longrightarrow> x = (''parcels_layer'', ''storm_catchment_layer'', ''storm_cleanout_layer''))"
    then show "merge_run out_path ?ins (Inl e) tr"
      by (simp add: merge_run_quiet(1))
  next
    fix x :: "string \<times> string \<times> string" and tr and r :: "exn + string" and tr'
    assume "(\<forall>e \<in> set tr. \<not> is_merge e) \<and>
           (\<forall>y. Inr x = Inr y \<longrightarrow> y = (''parcels_layer'', ''storm_catchment_layer'', ''storm_cleanout_layer''))"
      and "merge_run out_path [fst (snd x), snd (snd x)] r tr'"
    then show "merge_run out_path ?ins r (tr @ tr')"
      by (auto intro: merge_run_quiet(2))
  qed
qed


lemma run_of2_merges:
  assumes "log (snd (run_of2 P arc expression workspace_gdb storm_catchment storm_cleanout parcels
                      output_fc scratch_gdb w)) = log w @ tr"
    and "out_path = (if dirname P output_fc \<noteq> [] then output_fc
                     else join P (abspath P workspace_gdb) output_fc)"
  shows "merge_run out_path [''storm_catchment_layer'', ''storm_cleanout_layer'']
           (fst (run_of2 P arc expression workspace_gdb storm_catchment storm_cleanout parcels
                   output_fc scratch_gdb w)) tr"
proof -
  let ?run = "run_of2 P arc expression workspace_gdb storm_catchment storm_cleanout parcels
                output_fc scratch_gdb w"
  let ?ins = "[''storm_catchment_layer'', ''storm_cleanout_layer'']"
  have "\<exists>tr'. log (snd ?run) = log w @ EnvEnter (of2_settings P workspace_gdb scratch_gdb) # tr'
                   @ [EnvExit (env w)]
          \<and> merge_run out_path ?ins (fst ?run) tr'"
    unfolding run_of2_def Let_def
    by (rule EnvManager_log) (rule run_body_merges [OF assms(2)])
  then obtain tr' where tr': "log (snd ?run) = log w @ EnvEnter (of2_settings P workspace_gdb scratch_gdb)
        # tr' @ [EnvExit (env w)]" "merge_run out_path ?ins (fst ?run) tr'"
    by auto
  from tr'(1) assms(1) have tr: "tr = EnvEnter (of2_settings P workspace_gdb scratch_gdb) # tr'
        @ [EnvExit (env w)]"
    by simp
  have "preceded is_merge (merge_ok out_path ?ins) tr"
    unfolding tr
    by (rule preceded_wrap [where ok = "merge_ok out_path ?ins"])
      (use tr'(2) in \<open>simp_all add: merge_ok_mono merge_run_def\<close>)
  then show ?thesis
    using tr'(2) by (auto simp: merge_run_def tr)
qed

lemma output_events_of_run:
  assumes "log (snd (run_of2 P arc expression workspace_gdb storm_catchment storm_cleanout parcels
                      output_fc scratch_gdb w)) = log w @ tr"
    and "out_path = (if dirname P output_fc \<noteq> [] then output_fc
                     else join P (abspath P workspace_gdb) output_fc)"
  shows "(\<forall>pre ins out fms res post. tr = pre @ Ev_Merge ins out fms res # post \<longrightarrow>
            out = out_path
            \<and> (\<exists>pre'. pre = pre' @ [Ev_Exists out False]
                     \<or> pre = pre' @ [Ev_Exists out True, Ev_Delete out True])) \<and>
         (\<forall>p. fst (run_of2 P arc expression workspace_gdb storm_catchment storm_cleanout parcels
                     output_fc scratch_gdb w) = Inr p \<longrightarrow>
            (\<exists>ins fms. Ev_Merge ins out_path fms (Some p) \<in> set tr)) \<and>
         (dirname (posixpath ab) output_fc \<noteq> [] \<longleftrightarrow> CHR ''/'' \<in> set output_fc)"
proof -
  note m = run_of2_merges [OF assms, unfolded merge_run_def]
  have "\<forall>pre ins out fms res post. tr = pre @ Ev_Merge ins out fms res # post \<longrightarrow>
            out = out_path
            \<and> (\<exists>pre'. pre = pre' @ [Ev_Exists out False]
                     \<or> pre = pre' @ [Ev_Exists out True, Ev_Delete out True])"
    using m unfolding preceded_def merge_ok_def by fastforce
  moreover have "\<forall>p. fst (run_of2 P arc expression workspace_gdb storm_catchment storm_cleanout parcels
                     output_fc scratch_gdb w) = Inr p \<longrightarrow>
            (\<exists>ins fms. Ev_Merge ins out_path fms (Some p) \<in> set tr)"
    using m by blast
  moreover have "dirname (posixpath ab) output_fc \<noteq> [] \<longleftrightarrow> CHR ''/'' \<in> set output_fc"
    by (simp add: posixpath_def posix_dirname_nonempty)
  ultimately show ?thesis by blast
qed

lemma field_rule_first:
  "build_field_mappings lk inputs = Inr fms \<Longrightarrow> m \<in> set fms \<Longrightarrow>
     mergeRule m = ''First'' \<and> inputFields m = candidates lk inputs (name (outputField m))
     \<and> subseq (map fst (inputFields m)) inputs"
  by (auto simp: build_field_mappings_result field_rule_def candidates_def comp_def
      split: option.splits)

text \<open>
  Claim C3. Every field mapping that \<open>build_field_mappings\<close> returns has the merge rule
  \<open>First\<close>, and its input fields are the inputs that have the field, in the order of the
  inputs. Every merge of a run takes the catchment layer before the cleanout layer as
  its inputs, under field mappings of this kind.
\<close>

theorem build_field_mappings_first:
  "(build_field_mappings lk inputs = Inr fms \<longrightarrow>
      (\<forall>m \<in> set fms. mergeRule m = ''First''
         \<and> inputFields m = candidates lk inputs (name (outputField m))
         \<and> subseq (map fst (inputFields m)) inputs)) \<and>
   (log (snd (run_of2 P arc expression workspace_gdb storm_catchment storm_cleanout parcels
                output_fc scratch_gdb w)) = log w @ tr \<longrightarrow>
      (\<forall>ins out fms' res. Ev_Merge ins out fms' res \<in> set tr \<longrightarrow>
         ins = [''storm_catchment_layer'', ''storm_cleanout_layer'']
         \<and> (\<forall>m \<in> set fms'. mergeRule m = ''First'' \<and> subseq (map fst (inputFields m)) ins)))"
proof (intro conjI impI allI ballI)
  fix m
  assume "build_field_mappings lk inputs = Inr fms" "m \<in> set fms"
  from field_rule_first [OF this]
  show "mergeRule m = ''First''" "inputFields m = candidates lk inputs (name (outputField m))"
    "subseq (map fst (inputFields m)) inputs"
    by blast+
next
  fix ins out fms' res
  assume l: "log (snd (run_of2 P arc expression workspace_gdb storm_catchment storm_cleanout parcels
                output_fc scratch_gdb w)) = log w @ tr"
    and e: "Ev_Merge ins out fms' res \<in> set tr"
  from e obtain pre post where "tr = pre @ Ev_Merge ins out fms' res # post"
    by (auto simp: in_set_conv_decomp)
  with run_of2_merges [OF l refl, unfolded merge_run_def preceded_def]
  have "merge_ok (if dirname P output_fc \<noteq> [] then output_fc
                  else join P (abspath P workspace_gdb) output_fc)
          [''storm_catchment_layer'', ''storm_cleanout_layer''] pre (Ev_Merge ins out fms' res)"
    by (metis is_merge.simps(1))
  then have i: "ins = [''storm_catchment_layer'', ''storm_cleanout_layer'']"
    and "\<exists>lk. build_field_mappings lk ins = Inr fms'"
    by (auto simp: merge_ok_def)
  then obtain lk' where b: "build_field_mappings lk' ins = Inr fms'" by blast
  show "ins = [''storm_catchment_layer'', ''storm_cleanout_layer'']" by (rule i)
  fix m
  assume "m \<in> set fms'"
  from field_rule_first [OF b this]
  show "mergeRule m = ''First''" "subseq (map fst (inputFields m)) ins"
    by blast+
qed

text \<open>The mappings for the small store, and the merge of the run on it.\<close>

theorem build_field_mappings_first_witness:
  "build_field_mappings (tool_Field small_arcpy small_env small_store)
     [''/gdb/Catchment'', ''/gdb/Cleanout'']
   = Inr [\<lparr>inputFields = [(''/gdb/Catchment'', ''OrigPlan''), (''/gdb/Cleanout'', ''OrigPlan'')],
            outputField = \<lparr>name = ''OrigPlan'', aliasName = ''Original Plan''\<rparr>,
            mergeRule = ''First''\<rparr>,
          \<lparr>inputFields = [(''/gdb/Cleanout'', ''DocLink'')],
            outputField = \<lparr>name = ''DocLink'', aliasName = ''Document Link''\<rparr>,
            mergeRule = ''First''\<rparr>] \<and>
   Ev_Merge [''storm_catchment_layer'', ''storm_cleanout_layer''] ''/gdb/out'' small_mappings
     (Some ''/gdb/out'') \<in> set (log (snd (small_run small_arcpy ''Parcels'' small_store))) \<and>
   list_all (\<lambda>m. mergeRule m = ''First''
               \<and> subseq (map fst (inputFields m)) [''storm_catchment_layer'', ''storm_cleanout_layer''])
     small_mappings"
proof -
  let ?lk = "tool_Field small_arcpy small_env small_store"
  let ?tr = "log (snd (small_run small_arcpy ''Parcels'' small_store))"
  have b: "build_field_mappings ?lk [''/gdb/Catchment'', ''/gdb/Cleanout'']
   = Inr [\<lparr>inputFields = [(''/gdb/Catchment'', ''OrigPlan''), (''/gdb/Cleanout'', ''OrigPlan'')],
            outputField = \<lparr>name = ''OrigPlan'', aliasName = ''Original Plan''\<rparr>,
            mergeRule = ''First''\<rparr>,
          \<lparr>inputFields = [(''/gdb/Cleanout'', ''DocLink'')],
            outputField = \<lparr>name = ''DocLink'', aliasName = ''Document Link''\<rparr>,
            mergeRule = ''First''\<rparr>]"
    by (simp add: build_field_mappings_def desired_def FieldMap_def addInputField_def small_arcpy_def
        small_store_def store_fields_def)
  have h: "log (snd (run_of2 (posixpath id) small_arcpy ''PARCEL_NUMBER = 1'' ''/gdb'' ''Catchment''
                ''Cleanout'' ''Parcels'' ''out'' None (small_world small_store)))
           = log (small_world small_store) @ ?tr"
    by (simp add: small_run_def small_world_def)
  have e: "Ev_Merge [''storm_catchment_layer'', ''storm_cleanout_layer''] ''/gdb/out'' small_mappings
     (Some ''/gdb/out'') \<in> set ?tr"
    by (simp add: small_run_fresh(2))
  from build_field_mappings_first [where lk = ?lk and inputs = "[''/gdb/Catchment'', ''/gdb/Cleanout'']"
      and P = "posixpath id" and arc = small_arcpy and expression = "''PARCEL_NUMBER = 1''"
      and workspace_gdb = "''/gdb''" and storm_catchment = "''Catchment''"
      and storm_cleanout = "''Cleanout''" and parcels = "''Parcels''" and output_fc = "''out''"
      and scratch_gdb = None and w = "small_world small_store" and tr = ?tr] h e
  have "\<forall>m \<in> set small_mappings. mergeRule m = ''First''
          \<and> subseq (map fst (inputFields m)) [''storm_catchment_layer'', ''storm_cleanout_layer'']"
    by blast
  then show ?thesis
    using b e by (simp add: list_all_iff)
qed

subsection \<open>The duplicate removal\<close>

lemma remove_duplicates_events:
  fixes arc :: "'s arcpy"
  shows "yields (dedup_events p) (remove_duplicates arc p)"
proof (rule yieldsI)
  fix w :: "'s world"
  let ?m = "remove_duplicates arc p w"
  obtain r s1 where lf: "tool_ListFields arc (env w) (eng w) p = (r, s1)"
    by (cases "tool_ListFields arc (env w) (eng w) p")
  show "\<exists>tr. log (snd ?m) = log w @ tr \<and> dedup_events p (fst ?m) tr"
  proof (cases r)
    case (Inl e)
    with lf have "log (snd ?m) = log w @ [Ev_ListFields p None]" "fst ?m = Inl e"
      by (simp_all add: remove_duplicates_def bnd_def arcpy_ListFields_def invoke_def emit_def
          outcome_def)
    then show ?thesis unfolding dedup_events_def by blast
  next
    case (Inr fs)
    show ?thesis
    proof (cases "''OrigPlan'' \<in> set (map name fs)")
      case True
      obtain r' s2 where di: "tool_DeleteIdentical arc (env w) s1 p [''OrigPlan''] = (r', s2)"
        by (cases "tool_DeleteIdentical arc (env w) s1 p [''OrigPlan'']")
      with lf Inr True have "log (snd ?m) = log w @ [Ev_ListFields p (Some fs),
          Ev_DeleteIdentical p [''OrigPlan''] (succeeded r')]"
        "if succeeded r' then fst ?m = Inr p else \<exists>e. fst ?m = Inl e"
        by (cases r'; simp add: remove_duplicates_def bnd_def arcpy_ListFields_def
            arcpy_DeleteIdentical_def invoke_def emit_def outcome_def succeeded_def ret_def)+
      then show ?thesis using True unfolding dedup_events_def by blast
    next
      case False
      with lf Inr have "log (snd ?m) = log w @ [Ev_ListFields p (Some fs), LoggingWarning skip_message]"
        "fst ?m = Inr p"
        by (simp_all add: remove_duplicates_def bnd_def arcpy_ListFields_def logging_warning_def
            invoke_def emit_def outcome_def ret_def)
      then show ?thesis using False unfolding dedup_events_def by blast
    qed
  qed
qed

lemma merge_events_last:
  "merge_events out_path ins (Inr p) tr
     \<Longrightarrow> \<exists>pre fms. tr = pre @ [Ev_Merge ins out_path fms (Some p)] \<and> (\<forall>e \<in> set pre. \<not> merged_ok e)"
  unfolding merge_events_def
  by (auto split: option.splits)

lemma merge_events_failed:
  "merge_events out_path ins (Inl e) tr \<Longrightarrow> \<forall>e \<in> set tr. \<not> merged_ok e"
  unfolding merge_events_def
  by (auto split: option.splits)

lemma merge_then_dedup:
  "yields dedup_run
     (bnd (merge_selected P arc ws output_fc sl ol) (\<lambda>out_fc_path. remove_duplicates arc out_fc_path))"
proof -
  define out_path where
    "out_path = (if dirname P output_fc \<noteq> [] then output_fc else join P ws output_fc)"
  show ?thesis
  proof (rule yields_bnd [where
        ?R1.0 = "\<lambda>r tr. merge_events out_path [sl, ol] r tr \<and> (\<forall>e \<in> set tr. \<not> is_dedup e)"
        and ?R2.0 = dedup_events])
    show "yields (\<lambda>r tr. merge_events out_path [sl, ol] r tr \<and> (\<forall>e \<in> set tr. \<not> is_dedup e))
            (merge_selected P arc ws output_fc sl ol)"
      by (rule yields_conj [OF merge_selected_events [OF out_path_def] only_merge_selected]) simp_all
  next
    fix x
    show "yields (dedup_events x) (remove_duplicates arc x)"
      by (rule remove_duplicates_events)
  next
    fix e :: exn and tr
    assume "merge_events out_path [sl, ol] (Inl e) tr \<and> (\<forall>e \<in> set tr. \<not> is_dedup e)"
    then show "dedup_run (Inl e) tr"
      using merge_events_failed [of out_path "[sl, ol]" e tr] by (simp add: dedup_run_def)
  next
    fix x tr and r :: "exn + string" and tr'
    assume a: "merge_events out_path [sl, ol] (Inr x) tr \<and> (\<forall>e \<in> set tr. \<not> is_dedup e)"
      and b: "dedup_events x r tr'"
    from a merge_events_last obtain pre fms where
      pre: "tr = pre @ [Ev_Merge [sl, ol] out_path fms (Some x)]"
      and nm: "\<forall>e \<in> set pre. \<not> merged_ok e"
      by blast
    with a have q: "\<forall>e \<in> set pre. \<not> is_dedup e \<and> \<not> merged_ok e" by simp
    have "tr @ tr' = pre @ Ev_Merge [sl, ol] out_path fms (Some x) # tr'"
      by (simp add: pre)
    with q b show "dedup_run r (tr @ tr')"
      unfolding dedup_run_def by blast
  qed
qed

lemma dedup_run_later:
  assumes "yields (\<lambda>_ tr. \<forall>e \<in> set tr. \<not> is_dedup e \<and> \<not> merged_ok e) m"
    and "\<And>x. yields dedup_run (f x)"
  shows "yields dedup_run (bnd m f)"
proof (rule yields_bnd [OF assms])
  fix e :: exn and tr
  assume "\<forall>e \<in> set tr. \<not> is_dedup e \<and> \<not> merged_ok e"
  then show "dedup_run (Inl e) tr" by (simp add: dedup_run_def)
next
  fix x :: 'c and tr and r :: "exn + string" and tr'
  assume q: "\<forall>e \<in> set tr. \<not> is_dedup e \<and> \<not> merged_ok e" and d: "dedup_run r tr'"
  from d consider "(\<forall>e \<in> set tr'. \<not> is_dedup e \<and> \<not> merged_ok e) \<and> (\<exists>e. r = Inl e)"
    | pre ins out fms p d' where "tr' = pre @ Ev_Merge ins out fms (Some p) # d'"
      "\<forall>e \<in> set pre. \<not> is_dedup e \<and> \<not> merged_ok e" "dedup_events p r d'"
    unfolding dedup_run_def by blast
  then show "dedup_run r (tr @ tr')"
  proof cases
    case 1
    with q show ?thesis by (auto simp: dedup_run_def)
  next
    case 2
    then have "tr @ tr' = (tr @ pre) @ Ev_Merge ins out fms (Some p) # d'"
      "\<forall>e \<in> set (tr @ pre). \<not> is_dedup e \<and> \<not> merged_ok e"
      using q by auto
    with 2(3) show ?thesis unfolding dedup_run_def by blast
  qed
qed

lemma run_body_dedup:
  "yields dedup_run
     (bnd (validate_inputs arc pp cp op) (\<lambda>_.
      bnd (make_layers arc ex pp cp op) (\<lambda>(parcels_lyr, sc_lyr, so_lyr).
      bnd (select_by_parcels arc parcels_lyr sc_lyr so_lyr) (\<lambda>_.
      bnd (merge_selected P arc ws output_fc sc_lyr so_lyr) (\<lambda>out_fc_path.
      remove_duplicates arc out_fc_path)))))"
  by (rule dedup_run_later merge_then_dedup yields_case_prod3 only_validate_inputs
      only_make_layers only_select_by_parcels | simp)+


lemma dedup_events_listed:
  assumes "dedup_events p0 r d" "Ev_ListFields p (Some fs) \<in> set d"
  shows "p = p0 \<and>
         (if ''OrigPlan'' \<in> set (map name fs)
          then \<exists>ok. d = [Ev_ListFields p (Some fs), Ev_DeleteIdentical p [''OrigPlan''] ok]
                    \<and> (ok \<longrightarrow> r = Inr p)
          else d = [Ev_ListFields p (Some fs), LoggingWarning skip_message] \<and> r = Inr p)"
  using assms unfolding dedup_events_def by (auto split: if_splits)

lemma dedup_events_deleted:
  assumes "dedup_events p0 r d" "Ev_DeleteIdentical q ks ok \<in> set d"
  shows "ks = [''OrigPlan''] \<and> (\<exists>fs. Ev_ListFields q (Some fs) \<in> set d \<and> ''OrigPlan'' \<in> set (map name fs))"
  using assms unfolding dedup_events_def by auto

lemma dedup_events_of_run:
  assumes "log (snd (run_of2 P arc expression workspace_gdb storm_catchment storm_cleanout parcels
                      output_fc scratch_gdb w)) = log w @ tr"
  shows "(\<forall>p fs. Ev_ListFields p (Some fs) \<in> set tr \<longrightarrow>
            (\<exists>pre ins out fms. (\<forall>e \<in> set pre. \<not> is_dedup e) \<and>
               (if ''OrigPlan'' \<in> set (map name fs)
                then \<exists>ok. tr = pre @ [Ev_Merge ins out fms (Some p), Ev_ListFields p (Some fs),
                                       Ev_DeleteIdentical p [''OrigPlan''] ok, EnvExit (env w)]
                          \<and> (ok \<longrightarrow> fst (run_of2 P arc expression workspace_gdb storm_catchment
                                             storm_cleanout parcels output_fc scratch_gdb w) = Inr p)
                else tr = pre @ [Ev_Merge ins out fms (Some p), Ev_ListFields p (Some fs),
                                 LoggingWarning skip_message, EnvExit (env w)]
                     \<and> fst (run_of2 P arc expression workspace_gdb storm_catchment storm_cleanout
                              parcels output_fc scratch_gdb w) = Inr p))) \<and>
         (\<forall>q ks ok. Ev_DeleteIdentical q ks ok \<in> set tr \<longrightarrow>
            ks = [''OrigPlan'']
            \<and> (\<exists>fs. Ev_ListFields q (Some fs) \<in> set tr \<and> ''OrigPlan'' \<in> set (map name fs)))"
proof -
  let ?run = "run_of2 P arc expression workspace_gdb storm_catchment storm_cleanout parcels
                output_fc scratch_gdb w"
  let ?E = "EnvEnter (of2_settings P workspace_gdb scratch_gdb)"
  have "\<exists>tr'. log (snd ?run) = log w @ ?E # tr' @ [EnvExit (env w)] \<and> dedup_run (fst ?run) tr'"
    unfolding run_of2_def Let_def
    by (rule EnvManager_log) (rule run_body_dedup)
  then obtain tr' where "log (snd ?run) = log w @ ?E # tr' @ [EnvExit (env w)]"
    and d: "dedup_run (fst ?run) tr'"
    by auto
  with assms have tr: "tr = ?E # tr' @ [EnvExit (env w)]" by simp
  from d consider "\<forall>e \<in> set tr'. \<not> is_dedup e"
    | pre ins out fms p0 d' where "tr' = pre @ Ev_Merge ins out fms (Some p0) # d'"
      "\<forall>e \<in> set pre. \<not> is_dedup e" "dedup_events p0 (fst ?run) d'"
    unfolding dedup_run_def by blast
  then show ?thesis
  proof cases
    case 1
    then have "\<forall>e \<in> set tr. \<not> is_dedup e" by (simp add: tr)
    then have "\<forall>p fs. Ev_ListFields p (Some fs) \<notin> set tr"
      "\<forall>q ks ok. Ev_DeleteIdentical q ks ok \<notin> set tr"
      by fastforce+
    then show ?thesis by blast
  next
    case 2
    have q: "\<forall>e \<in> set (?E # pre). \<not> is_dedup e" using 2(2) by simp
    have split: "tr = (?E # pre) @ Ev_Merge ins out fms (Some p0) # d' @ [EnvExit (env w)]"
      by (simp add: tr 2(1))
    have ind: "e \<in> set d'" if "e \<in> set tr" "is_dedup e" for e
      using that q by (auto simp: split)
    have a: "\<exists>pre ins out fms. (\<forall>e \<in> set pre. \<not> is_dedup e) \<and>
               (if ''OrigPlan'' \<in> set (map name fs)
                then \<exists>ok. tr = pre @ [Ev_Merge ins out fms (Some p), Ev_ListFields p (Some fs),
                                       Ev_DeleteIdentical p [''OrigPlan''] ok, EnvExit (env w)]
                          \<and> (ok \<longrightarrow> fst ?run = Inr p)
                else tr = pre @ [Ev_Merge ins out fms (Some p), Ev_ListFields p (Some fs),
                                 LoggingWarning skip_message, EnvExit (env w)]
                     \<and> fst ?run = Inr p)"
      if "Ev_ListFields p (Some fs) \<in> set tr" for p fs
    proof -
      from ind [OF that] have "Ev_ListFields p (Some fs) \<in> set d'" by simp
      from dedup_events_listed [OF 2(3) this] have p: "p = p0"
        and s: "if ''OrigPlan'' \<in> set (map name fs)
          then \<exists>ok. d' = [Ev_ListFields p (Some fs), Ev_DeleteIdentical p [''OrigPlan''] ok]
                    \<and> (ok \<longrightarrow> fst ?run = Inr p)
          else d' = [Ev_ListFields p (Some fs), LoggingWarning skip_message] \<and> fst ?run = Inr p"
        by blast+
      show ?thesis
      proof (cases "''OrigPlan'' \<in> set (map name fs)")
        case True
        with s obtain ok where "d' = [Ev_ListFields p (Some fs), Ev_DeleteIdentical p [''OrigPlan''] ok]"
          "ok \<longrightarrow> fst ?run = Inr p"
          by auto
        with split p have "tr = (?E # pre) @ [Ev_Merge ins out fms (Some p), Ev_ListFields p (Some fs),
            Ev_DeleteIdentical p [''OrigPlan''] ok, EnvExit (env w)] \<and> (ok \<longrightarrow> fst ?run = Inr p)"
          by simp
        with q True show ?thesis by (intro exI [of _ "?E # pre"] exI [of _ ins] exI [of _ out]
              exI [of _ fms]) auto
      next
        case False
        with s have "d' = [Ev_ListFields p (Some fs), LoggingWarning skip_message]" "fst ?run = Inr p"
          by auto
        with split p have "tr = (?E # pre) @ [Ev_Merge ins out fms (Some p), Ev_ListFields p (Some fs),
            LoggingWarning skip_message, EnvExit (env w)] \<and> fst ?run = Inr p"
          by simp
        with q False show ?thesis by (intro exI [of _ "?E # pre"] exI [of _ ins] exI [of _ out]
              exI [of _ fms]) auto
      qed
    qed
    have b: "ks = [''OrigPlan'']
            \<and> (\<exists>fs. Ev_ListFields q (Some fs) \<in> set tr \<and> ''OrigPlan'' \<in> set (map name fs))"
      if "Ev_DeleteIdentical q ks ok \<in> set tr" for q ks ok
    proof -
      from ind [OF that] have "Ev_DeleteIdentical q ks ok \<in> set d'" by simp
      from dedup_events_deleted [OF 2(3) this] show ?thesis
        by (auto simp: split)
    qed
    from a b show ?thesis by blast
  qed
qed

subsection \<open>The tools on the store\<close>

lemma replay_append:
  "replay arc (a @ b) c = (case replay arc a c of None \<Rightarrow> None | Some c' \<Rightarrow> replay arc b c')"
  by (induction a arbitrary: c) (auto split: option.splits)

lemma replay_split:
  assumes "replay arc (pre @ e # post) c = Some c'"
  obtains c1 c2 where "replay arc pre c = Some c1" "apply_event arc e c1 = Some c2"
    "replay arc post c2 = Some c'"
  using assms by (auto simp: replay_append split: option.splits)

lemma replay_env:
  "replay arc tr (E, s) = Some (E', s') \<Longrightarrow> \<forall>e \<in> set tr. \<not> is_env e \<Longrightarrow> E' = E"
proof (induction tr arbitrary: s)
  case Nil
  then show ?case by simp
next
  case (Cons e tr)
  then show ?case
    by (cases e) (auto split: option.splits prod.splits if_splits)
qed

lemma faithfulI:
  assumes "\<And>w. \<exists>tr. log (snd (m w)) = log w @ tr \<and>
        replay arc tr (env w, eng w) = Some (env (snd (m w)), eng (snd (m w)))"
  shows "faithful arc m"
  using assms by (simp add: faithful_def)

lemma faithful_ret: "faithful arc (ret x)"
  by (simp add: faithful_def ret_def)

lemma faithful_raise: "faithful arc (raise e)"
  by (simp add: faithful_def raise_def)

lemma faithful_if:
  "(c \<Longrightarrow> faithful arc a) \<Longrightarrow> (\<not> c \<Longrightarrow> faithful arc b) \<Longrightarrow> faithful arc (if c then a else b)"
  by simp

lemma faithful_case_prod3:
  assumes "\<And>a b c. faithful arc (f a b c)"
  shows "faithful arc (case x of (a, b, c) \<Rightarrow> f a b c)"
  using assms by (cases x) auto

lemma faithful_bnd:
  fixes m :: "('s, 'a) prog"
  assumes m: "faithful arc m" and f: "\<And>x. faithful arc (f x)"
  shows "faithful arc (bnd m f)"
proof (rule faithfulI)
  fix w :: "'s world"
  obtain r w' where mw: "m w = (r, w')" by (cases "m w")
  from m mw obtain tr where tr: "log w' = log w @ tr"
    "replay arc tr (env w, eng w) = Some (env w', eng w')"
    unfolding faithful_def by (metis snd_conv)
  show "\<exists>tr. log (snd (bnd m f w)) = log w @ tr \<and>
        replay arc tr (env w, eng w) = Some (env (snd (bnd m f w)), eng (snd (bnd m f w)))"
  proof (cases r)
    case (Inl e)
    then have "bnd m f w = (Inl e, w')" by (simp add: bnd_def mw)
    with tr show ?thesis by auto
  next
    case (Inr x)
    then have b: "bnd m f w = f x w'" by (simp add: bnd_def mw)
    from f [of x] obtain tr' where tr': "log (snd (f x w')) = log w' @ tr'"
      "replay arc tr' (env w', eng w') = Some (env (snd (f x w')), eng (snd (f x w')))"
      unfolding faithful_def by blast
    have "replay arc (tr @ tr') (env w, eng w) = Some (env (snd (f x w')), eng (snd (f x w')))"
      by (simp add: replay_append tr(2) tr'(2))
    with b tr(1) tr'(1) show ?thesis by auto
  qed
qed

lemma faithful_Exists: "faithful arc (arcpy_Exists arc p)"
  by (simp add: faithful_def arcpy_Exists_def emit_def Let_def)

lemma faithful_tools:
  "faithful arc (arcpy_Delete arc p)"
  "faithful arc (arcpy_MakeFeatureLayer arc d n wh)"
  "faithful arc (arcpy_SelectLayerByLocation arc ls ov sel ty)"
  "faithful arc (arcpy_GetCount arc l)"
  "faithful arc (arcpy_Merge arc ins out fms)"
  "faithful arc (arcpy_ListFields arc p)"
  "faithful arc (arcpy_DeleteIdentical arc p ks)"
  by (auto simp: faithful_def arcpy_Delete_def arcpy_MakeFeatureLayer_def
      arcpy_SelectLayerByLocation_def arcpy_GetCount_def arcpy_Merge_def arcpy_ListFields_def
      arcpy_DeleteIdentical_def invoke_def emit_def split: prod.splits)

lemma faithful_logging:
  "faithful arc (logging_info fmt args)" "faithful arc (logging_warning msg)"
  by (simp_all add: faithful_def logging_info_def logging_warning_def emit_def)

lemma faithful_build: "faithful arc (arcpy_build_field_mappings arc inputs)"
  by (auto simp: faithful_def arcpy_build_field_mappings_def split: sum.splits)

lemma faithful_ensure_layer: "faithful arc (ensure_layer arc d n wh)"
  unfolding ensure_layer_def
  by (rule faithful_bnd faithful_Exists faithful_tools faithful_ret faithful_if)+

lemma faithful_run_body:
  "faithful arc
     (bnd (validate_inputs arc pp cp op) (\<lambda>_.
      bnd (make_layers arc ex pp cp op) (\<lambda>(parcels_lyr, sc_lyr, so_lyr).
      bnd (select_by_parcels arc parcels_lyr sc_lyr so_lyr) (\<lambda>_.
      bnd (merge_selected P arc ws output_fc sc_lyr so_lyr) (\<lambda>out_fc_path.
      remove_duplicates arc out_fc_path)))))"
  unfolding validate_inputs_def make_layers_def select_by_parcels_def merge_selected_def
    remove_duplicates_def Let_def
  by (rule faithful_bnd faithful_Exists faithful_tools faithful_ret faithful_raise faithful_if
      faithful_case_prod3 faithful_ensure_layer faithful_logging faithful_build)+

lemma not_env_iff: "\<not> is_env e \<longleftrightarrow> (\<forall>s. e \<noteq> EnvEnter s \<and> e \<noteq> EnvExit s)"
  by (cases e) auto

lemma apply_event_keeps_env:
  "\<not> is_env e \<Longrightarrow> apply_event arc e (E, s) = Some (E', s') \<Longrightarrow> E' = E"
  by (cases e) (auto split: prod.splits if_splits)

lemma inside_wrap:
  assumes "a # mid @ [b] = pre @ e # post" "e \<noteq> a" "e \<noteq> b"
  obtains pre2 post2 where "pre = a # pre2" "post = post2 @ [b]" "mid = pre2 @ e # post2"
proof -
  from assms(1,2) obtain pre2 where pre: "pre = a # pre2" and m: "mid @ [b] = pre2 @ e # post"
    by (cases pre) auto
  from m assms(3) obtain post2 where post: "post = post2 @ [b]"
    by (cases post rule: rev_cases) auto
  with m have "mid = pre2 @ e # post2" by simp
  with pre post that show ?thesis by blast
qed

text \<open>The run between the entry into its settings and the exit, replayed on the store.\<close>

lemma run_of2_replay:
  fixes arc :: "'s arcpy" and w :: "'s world"
  assumes "log (snd (run_of2 P arc expression workspace_gdb storm_catchment storm_cleanout parcels
                      output_fc scratch_gdb w)) = log w @ tr"
    and "E = of2_settings P workspace_gdb scratch_gdb"
  shows "\<exists>mid. tr = EnvEnter E # mid @ [EnvExit (env w)] \<and> (\<forall>e \<in> set mid. \<not> is_env e) \<and>
           replay arc mid (E, eng w)
             = Some (E, eng (snd (run_of2 P arc expression workspace_gdb storm_catchment
                                    storm_cleanout parcels output_fc scratch_gdb w)))"
proof -
  let ?run = "run_of2 P arc expression workspace_gdb storm_catchment storm_cleanout parcels
                output_fc scratch_gdb w"
  define body :: "('s, string) prog" where "body =
     (bnd (validate_inputs arc (resolve_dataset P parcels (abspath P workspace_gdb))
             (resolve_dataset P storm_catchment (abspath P workspace_gdb))
             (resolve_dataset P storm_cleanout (abspath P workspace_gdb))) (\<lambda>_.
      bnd (make_layers arc expression (resolve_dataset P parcels (abspath P workspace_gdb))
             (resolve_dataset P storm_catchment (abspath P workspace_gdb))
             (resolve_dataset P storm_cleanout (abspath P workspace_gdb)))
        (\<lambda>(parcels_lyr, sc_lyr, so_lyr).
      bnd (select_by_parcels arc parcels_lyr sc_lyr so_lyr) (\<lambda>_.
      bnd (merge_selected P arc (abspath P workspace_gdb) output_fc sc_lyr so_lyr) (\<lambda>out_fc_path.
      remove_duplicates arc out_fc_path)))))"
  have run: "?run = EnvManager E body w"
    by (simp add: run_of2_def body_def assms(2) Let_def)
  have f: "faithful arc body"
    unfolding body_def by (rule faithful_run_body)
  have q: "yields (\<lambda>_ tr. \<forall>e \<in> set tr. \<not> is_env e) body"
    unfolding body_def by (rule only_run_body) (simp add: not_env_iff)
  define w1 where "w1 = emit (EnvEnter E) (w\<lparr>env := E\<rparr>)"
  obtain r w' where bw: "body w1 = (r, w')" by (cases "body w1")
  from f bw obtain mid where mid: "log w' = log w1 @ mid"
    "replay arc mid (env w1, eng w1) = Some (env w', eng w')"
    unfolding faithful_def by (metis snd_conv)
  from q bw mid(1) have ne: "\<forall>e \<in> set mid. \<not> is_env e"
    unfolding yields_def by (metis same_append_eq snd_conv)
  have w1: "env w1 = E" "eng w1 = eng w" "log w1 = log w @ [EnvEnter E]"
    by (simp_all add: w1_def emit_def)
  from replay_env [OF mid(2) [unfolded w1] ne] have e': "env w' = E" .
  have "EnvManager E body w = (r, emit (EnvExit (env w)) (w'\<lparr>env := env w\<rparr>))"
    using bw by (simp add: EnvManager_def Let_def w1_def [symmetric])
  then have "log (snd ?run) = log w @ EnvEnter E # mid @ [EnvExit (env w)]" "eng (snd ?run) = eng w'"
    using mid(1) by (simp_all add: run emit_def w1)
  with assms(1) mid(2) ne e' w1 show ?thesis by auto
qed

text \<open>The store on which the run makes one of its calls.\<close>

lemma run_of2_at:
  fixes arc :: "'s arcpy" and w :: "'s world"
  assumes l: "log (snd (run_of2 P arc expression workspace_gdb storm_catchment storm_cleanout parcels
                      output_fc scratch_gdb w)) = log w @ tr"
    and E: "E = of2_settings P workspace_gdb scratch_gdb"
    and tr: "tr = pre @ e # post" and e: "\<not> is_env e"
  obtains s s' where "replay arc pre (env w, eng w) = Some (E, s)"
    "apply_event arc e (E, s) = Some (E, s')"
    "replay arc post (E, s')
       = Some (env w, eng (snd (run_of2 P arc expression workspace_gdb storm_catchment
                                  storm_cleanout parcels output_fc scratch_gdb w)))"
proof -
  let ?run = "run_of2 P arc expression workspace_gdb storm_catchment storm_cleanout parcels
                output_fc scratch_gdb w"
  from run_of2_replay [OF l E] obtain mid where mid: "tr = EnvEnter E # mid @ [EnvExit (env w)]"
    "\<forall>e \<in> set mid. \<not> is_env e" "replay arc mid (E, eng w) = Some (E, eng (snd ?run))"
    by blast
  from mid(1) tr have "EnvEnter E # mid @ [EnvExit (env w)] = pre @ e # post" by simp
  moreover from e have "e \<noteq> EnvEnter E" "e \<noteq> EnvExit (env w)" by auto
  ultimately obtain pre2 post2 where p: "pre = EnvEnter E # pre2" "post = post2 @ [EnvExit (env w)]"
    "mid = pre2 @ e # post2"
    by (rule inside_wrap)
  from mid(3) p(3) obtain c1 c2 where c: "replay arc pre2 (E, eng w) = Some c1"
    "apply_event arc e c1 = Some c2" "replay arc post2 c2 = Some (E, eng (snd ?run))"
    by (auto elim: replay_split)
  obtain E1 s where c1: "c1 = (E1, s)" by (cases c1)
  obtain E2 s' where c2: "c2 = (E2, s')" by (cases c2)
  from mid(2) p(3) have ne: "\<forall>e \<in> set pre2. \<not> is_env e" by simp
  from replay_env [OF c(1) [unfolded c1] ne] have "E1 = E" .
  moreover from apply_event_keeps_env [OF e c(2) [unfolded c1 c2]] have "E2 = E1" .
  ultimately have "replay arc pre (env w, eng w) = Some (E, s)" "apply_event arc e (E, s) = Some (E, s')"
    "replay arc post (E, s') = Some (env w, eng (snd ?run))"
    using c c1 c2 p by (simp_all add: replay_append)
  then show ?thesis by (rule that)
qed

lemma run_of2_replay_all:
  fixes arc :: "'s arcpy" and w :: "'s world"
  assumes "log (snd (run_of2 P arc expression workspace_gdb storm_catchment storm_cleanout parcels
                      output_fc scratch_gdb w)) = log w @ tr"
  shows "replay arc tr (env w, eng w)
           = Some (env w, eng (snd (run_of2 P arc expression workspace_gdb storm_catchment
                                      storm_cleanout parcels output_fc scratch_gdb w)))"
  using run_of2_replay [OF assms refl] by (auto simp: replay_append)

lemma replay_snoc_Exists:
  "replay arc (pre @ [Ev_Exists p b]) c = Some (E, s)
     \<longleftrightarrow> replay arc pre c = Some (E, s) \<and> tool_Exists arc E s p = b"
  by (auto simp: replay_append split: option.splits)

lemma replay_snoc_Delete:
  "replay arc (pre @ [Ev_Delete p True]) c = Some (E, s)
     \<longleftrightarrow> (\<exists>s0 u. replay arc pre c = Some (E, s0) \<and> tool_Delete arc E s0 p = (Inr u, s))"
  by (auto simp: replay_append succeeded_def split: option.splits prod.splits sum.splits)

lemma replay_checked:
  assumes "pre = pre' @ [Ev_Exists n False] \<or> pre = pre' @ [Ev_Exists n True, Ev_Delete n True]"
    and "replay arc pre c = Some (E, s)"
  shows "(pre = pre' @ [Ev_Exists n False] \<and> replay arc pre' c = Some (E, s)
            \<and> \<not> tool_Exists arc E s n)
         \<or> (\<exists>s0 u. pre = pre' @ [Ev_Exists n True, Ev_Delete n True]
               \<and> replay arc pre' c = Some (E, s0) \<and> tool_Exists arc E s0 n
               \<and> tool_Delete arc E s0 n = (Inr u, s))"
proof -
  from assms(1) show ?thesis
  proof
    assume p: "pre = pre' @ [Ev_Exists n False]"
    with assms(2) show ?thesis by (simp add: replay_snoc_Exists)
  next
    assume p: "pre = pre' @ [Ev_Exists n True, Ev_Delete n True]"
    then have "pre = (pre' @ [Ev_Exists n True]) @ [Ev_Delete n True]" by simp
    with assms(2) obtain s0 u where "replay arc (pre' @ [Ev_Exists n True]) c = Some (E, s0)"
      "tool_Delete arc E s0 n = (Inr u, s)"
      by (auto simp only: replay_snoc_Delete)
    with p show ?thesis by (auto simp: replay_snoc_Exists)
  qed
qed

text \<open>
  Claim C8. Every layer creation of a run is one of three: the parcels layer under the
  expression, the catchment layer or the cleanout layer under the empty filter. It is applied to
  the store on which the layer name was just tested: either \<open>Exists\<close> denies the name
  there, or \<open>Exists\<close> holds, \<open>Delete\<close> is applied to that store and succeeds, and the
  creation is applied to the store that \<open>Delete\<close> leaves. Where a successful \<open>Delete\<close>
  leaves nothing under the name it was given, no layer of that name exists on the store of the
  creation. A run that returns created the three layers in this order. The store after the run
  is the store before it with the tools of the logged calls applied in order.
\<close>

theorem run_of2_layers:
  fixes arc :: "'s arcpy" and w :: "'s world"
  assumes "log (snd (run_of2 P arc expression workspace_gdb storm_catchment storm_cleanout parcels
                      output_fc scratch_gdb w)) = log w @ tr"
    and "parcels_path = resolve_dataset P parcels (abspath P workspace_gdb)"
    and "sc_path = resolve_dataset P storm_catchment (abspath P workspace_gdb)"
    and "so_path = resolve_dataset P storm_cleanout (abspath P workspace_gdb)"
    and "E = of2_settings P workspace_gdb scratch_gdb"
  shows "(\<forall>pre d n wh ok post. tr = pre @ Ev_MakeFeatureLayer d n wh ok # post \<longrightarrow>
            (d, n, wh) \<in> {(parcels_path, ''parcels_layer'', expression),
                          (sc_path, ''storm_catchment_layer'', []),
                          (so_path, ''storm_cleanout_layer'', [])}
            \<and> (\<exists>pre' s.
                  ((pre = pre' @ [Ev_Exists n False]
                      \<and> replay arc pre' (env w, eng w) = Some (E, s) \<and> \<not> tool_Exists arc E s n)
                   \<or> (\<exists>s0 u. pre = pre' @ [Ev_Exists n True, Ev_Delete n True]
                         \<and> replay arc pre' (env w, eng w) = Some (E, s0) \<and> tool_Exists arc E s0 n
                         \<and> tool_Delete arc E s0 n = (Inr u, s)))
                  \<and> succeeded (fst (tool_MakeFeatureLayer arc E s d n wh)) = ok
                  \<and> (delete_clears arc \<longrightarrow> \<not> tool_Exists arc E s n))) \<and>
         (\<forall>out. fst (run_of2 P arc expression workspace_gdb storm_catchment storm_cleanout parcels
                       output_fc scratch_gdb w) = Inr out \<longrightarrow>
            filter is_make tr =
              [Ev_MakeFeatureLayer parcels_path ''parcels_layer'' expression True,
               Ev_MakeFeatureLayer sc_path ''storm_catchment_layer'' [] True,
               Ev_MakeFeatureLayer so_path ''storm_cleanout_layer'' [] True]) \<and>
         replay arc tr (env w, eng w)
           = Some (env w, eng (snd (run_of2 P arc expression workspace_gdb storm_catchment
                                      storm_cleanout parcels output_fc scratch_gdb w)))"
proof (intro conjI allI impI)
  fix pre d n wh ok post
  assume tr: "tr = pre @ Ev_MakeFeatureLayer d n wh ok # post"
  note ev = layers_events_of_run [OF assms(1-4), THEN conjunct1, rule_format, OF tr]
  from ev show "(d, n, wh) \<in> {(parcels_path, ''parcels_layer'', expression),
                          (sc_path, ''storm_catchment_layer'', []),
                          (so_path, ''storm_cleanout_layer'', [])}"
    by blast
  from ev obtain pre' where pre: "pre = pre' @ [Ev_Exists n False]
      \<or> pre = pre' @ [Ev_Exists n True, Ev_Delete n True]"
    by blast
  have "\<not> is_env (Ev_MakeFeatureLayer d n wh ok)" by simp
  from run_of2_at [OF assms(1) assms(5) tr this] obtain s s' where
    s: "replay arc pre (env w, eng w) = Some (E, s)"
    "apply_event arc (Ev_MakeFeatureLayer d n wh ok) (E, s) = Some (E, s')"
    by blast
  from s(2) have ok: "succeeded (fst (tool_MakeFeatureLayer arc E s d n wh)) = ok"
    by (auto split: prod.splits if_splits)
  note c = replay_checked [OF pre s(1)]
  have "delete_clears arc \<longrightarrow> \<not> tool_Exists arc E s n"
    using c unfolding delete_clears_def by blast
  with c ok show "\<exists>pre' s.
                  ((pre = pre' @ [Ev_Exists n False]
                      \<and> replay arc pre' (env w, eng w) = Some (E, s) \<and> \<not> tool_Exists arc E s n)
                   \<or> (\<exists>s0 u. pre = pre' @ [Ev_Exists n True, Ev_Delete n True]
                         \<and> replay arc pre' (env w, eng w) = Some (E, s0) \<and> tool_Exists arc E s0 n
                         \<and> tool_Delete arc E s0 n = (Inr u, s)))
                  \<and> succeeded (fst (tool_MakeFeatureLayer arc E s d n wh)) = ok
                  \<and> (delete_clears arc \<longrightarrow> \<not> tool_Exists arc E s n)"
    by blast
next
  fix out
  assume "fst (run_of2 P arc expression workspace_gdb storm_catchment storm_cleanout parcels
                 output_fc scratch_gdb w) = Inr out"
  with layers_events_of_run [OF assms(1-4)]
  show "filter is_make tr =
              [Ev_MakeFeatureLayer parcels_path ''parcels_layer'' expression True,
               Ev_MakeFeatureLayer sc_path ''storm_catchment_layer'' [] True,
               Ev_MakeFeatureLayer so_path ''storm_cleanout_layer'' [] True]"
    by blast
next
  show "replay arc tr (env w, eng w)
           = Some (env w, eng (snd (run_of2 P arc expression workspace_gdb storm_catchment
                                      storm_cleanout parcels output_fc scratch_gdb w)))"
    by (rule run_of2_replay_all [OF assms(1)])
qed

lemma map_of_filter_out: "map_of (filter (\<lambda>x. fst x \<noteq> p) s) p = None"
  by (induction s) auto

lemma delete_clears_small: "delete_clears small_arcpy" "delete_clears record_arcpy"
  by (simp_all add: delete_clears_def small_arcpy_def record_arcpy_def store_fields_def
      map_of_filter_out)

lemma small_paths:
  "resolve_dataset (posixpath id) ''Parcels'' (abspath (posixpath id) ''/gdb'') = ''/gdb/Parcels''"
  "resolve_dataset (posixpath id) ''Catchment'' (abspath (posixpath id) ''/gdb'') = ''/gdb/Catchment''"
  "resolve_dataset (posixpath id) ''Cleanout'' (abspath (posixpath id) ''/gdb'') = ''/gdb/Cleanout''"
  "of2_settings (posixpath id) ''/gdb'' None = small_settings"
  "(if dirname (posixpath id) ''out'' \<noteq> [] then ''out''
    else join (posixpath id) (abspath (posixpath id) ''/gdb'') ''out'') = ''/gdb/out''"
  by (simp_all add: posixpath_def resolve_dataset_def posix_isabs_def posix_join_def lower_def
      lower_char_def startswith_def of2_settings_def small_settings_def posix_dirname_def Let_def)

text \<open>
  A run on the store an earlier run left: the old parcels layer is there, \<open>Delete\<close> is
  applied to it, and the layer is made on a store without it.
\<close>

theorem run_of2_layers_witness:
  "\<exists>pre' post s0 s.
     log (snd (small_run small_arcpy ''Parcels'' stale_store))
       = (pre' @ [Ev_Exists ''parcels_layer'' True, Ev_Delete ''parcels_layer'' True])
           @ Ev_MakeFeatureLayer ''/gdb/Parcels'' ''parcels_layer'' ''PARCEL_NUMBER = 1'' True # post
     \<and> replay small_arcpy pre' (small_env, stale_store) = Some (small_settings, s0)
     \<and> tool_Exists small_arcpy small_settings s0 ''parcels_layer''
     \<and> tool_Delete small_arcpy small_settings s0 ''parcels_layer'' = (Inr (), s)
     \<and> \<not> tool_Exists small_arcpy small_settings s ''parcels_layer''
     \<and> filter is_make (log (snd (small_run small_arcpy ''Parcels'' stale_store)))
         = [Ev_MakeFeatureLayer ''/gdb/Parcels'' ''parcels_layer'' ''PARCEL_NUMBER = 1'' True,
            Ev_MakeFeatureLayer ''/gdb/Catchment'' ''storm_catchment_layer'' [] True,
            Ev_MakeFeatureLayer ''/gdb/Cleanout'' ''storm_cleanout_layer'' [] True]"
proof -
  let ?tr = "log (snd (small_run small_arcpy ''Parcels'' stale_store))"
  let ?pre = "[EnvEnter small_settings,
      Ev_Exists ''/gdb/Parcels'' True, Ev_Exists ''/gdb/Catchment'' True,
      Ev_Exists ''/gdb/Cleanout'' True,
      Ev_Exists ''parcels_layer'' True, Ev_Delete ''parcels_layer'' True]"
  have h: "log (snd (run_of2 (posixpath id) small_arcpy ''PARCEL_NUMBER = 1'' ''/gdb'' ''Catchment''
                ''Cleanout'' ''Parcels'' ''out'' None (small_world stale_store)))
           = log (small_world stale_store) @ ?tr"
    by (simp add: small_run_def small_world_def)
  have w: "env (small_world stale_store) = small_env" "eng (small_world stale_store) = stale_store"
    by (simp_all add: small_world_def)
  obtain post where post: "?tr = ?pre @ Ev_MakeFeatureLayer ''/gdb/Parcels'' ''parcels_layer''
        ''PARCEL_NUMBER = 1'' True # post"
    by (simp add: small_run_stale(2))
  note layers = run_of2_layers [OF h refl refl refl refl, unfolded small_paths w]
  from layers [THEN conjunct1, rule_format, OF post] delete_clears_small(1)
  obtain pre' s where c: "(?pre = pre' @ [Ev_Exists ''parcels_layer'' False]
        \<and> replay small_arcpy pre' (small_env, stale_store) = Some (small_settings, s)
        \<and> \<not> tool_Exists small_arcpy small_settings s ''parcels_layer'')
      \<or> (\<exists>s0 u. ?pre = pre' @ [Ev_Exists ''parcels_layer'' True, Ev_Delete ''parcels_layer'' True]
            \<and> replay small_arcpy pre' (small_env, stale_store) = Some (small_settings, s0)
            \<and> tool_Exists small_arcpy small_settings s0 ''parcels_layer''
            \<and> tool_Delete small_arcpy small_settings s0 ''parcels_layer'' = (Inr u, s))"
    and n: "\<not> tool_Exists small_arcpy small_settings s ''parcels_layer''"
    by blast
  have "?pre \<noteq> pre' @ [Ev_Exists ''parcels_layer'' False]"
    by (auto simp: Cons_eq_append_conv)
  with c obtain s0 where
    d: "?pre = pre' @ [Ev_Exists ''parcels_layer'' True, Ev_Delete ''parcels_layer'' True]"
      "replay small_arcpy pre' (small_env, stale_store) = Some (small_settings, s0)"
      "tool_Exists small_arcpy small_settings s0 ''parcels_layer''"
      "tool_Delete small_arcpy small_settings s0 ''parcels_layer'' = (Inr (), s)"
    by auto
  from layers [THEN conjunct2, THEN conjunct1, rule_format, OF small_run_stale(1) [unfolded small_run_def]]
  have m: "filter is_make ?tr
         = [Ev_MakeFeatureLayer ''/gdb/Parcels'' ''parcels_layer'' ''PARCEL_NUMBER = 1'' True,
            Ev_MakeFeatureLayer ''/gdb/Catchment'' ''storm_catchment_layer'' [] True,
            Ev_MakeFeatureLayer ''/gdb/Cleanout'' ''storm_cleanout_layer'' [] True]" .
  from post d n m show ?thesis by (metis append.assoc)
qed

lemma run_of2_dedup_run:
  assumes "log (snd (run_of2 P arc expression workspace_gdb storm_catchment storm_cleanout parcels
                      output_fc scratch_gdb w)) = log w @ tr"
    and "E = of2_settings P workspace_gdb scratch_gdb"
  shows "\<exists>tr'. tr = EnvEnter E # tr' @ [EnvExit (env w)] \<and>
           dedup_run (fst (run_of2 P arc expression workspace_gdb storm_catchment storm_cleanout
                             parcels output_fc scratch_gdb w)) tr'"
proof -
  let ?run = "run_of2 P arc expression workspace_gdb storm_catchment storm_cleanout parcels
                output_fc scratch_gdb w"
  have "\<exists>tr'. log (snd ?run) = log w @ EnvEnter E # tr' @ [EnvExit (env w)] \<and> dedup_run (fst ?run) tr'"
    unfolding run_of2_def Let_def assms(2)
    by (rule EnvManager_log) (rule run_body_dedup)
  with assms(1) show ?thesis by auto
qed

lemma dedup_events_returned:
  assumes "dedup_events p0 (Inr p) d"
  shows "p = p0 \<and> (\<exists>fs. d = [Ev_ListFields p (Some fs), Ev_DeleteIdentical p [''OrigPlan''] True]
                        \<or> d = [Ev_ListFields p (Some fs), LoggingWarning skip_message])"
  using assms unfolding dedup_events_def by (auto split: if_splits)

text \<open>The records under \<open>p\<close> through the duplicate removal and the exit.\<close>

lemma replay_dedup_content:
  assumes c: "dedup_shrinks arc content"
    and d: "d = [Ev_ListFields p (Some fs), Ev_DeleteIdentical p [''OrigPlan''] True]
            \<or> d = [Ev_ListFields p (Some fs), LoggingWarning skip_message]"
    and r: "replay arc (d @ [EnvExit saved]) (E, s) = Some (E', s')"
  shows "content s' p \<subseteq> content s p"
proof -
  obtain r1 s1 where lf: "tool_ListFields arc E s p = (r1, s1)"
    by (cases "tool_ListFields arc E s p")
  with c have c1: "content s1 p = content s p"
    unfolding dedup_shrinks_def by blast
  from d show ?thesis
  proof
    assume "d = [Ev_ListFields p (Some fs), Ev_DeleteIdentical p [''OrigPlan''] True]"
    with r lf obtain r2 where "tool_DeleteIdentical arc E s1 p [''OrigPlan''] = (r2, s')"
      by (auto split: if_splits prod.splits)
    with c have "content s' p \<subseteq> content s1 p"
      unfolding dedup_shrinks_def by blast
    with c1 show ?thesis by simp
  next
    assume "d = [Ev_ListFields p (Some fs), LoggingWarning skip_message]"
    with r lf have "s' = s1" by (auto split: if_splits)
    with c1 show ?thesis by simp
  qed
qed

text \<open>
  Claim C7. Every merge of a run writes to the output path, which is \<open>output_fc\<close> itself when
  it has a directory part (under \<open>posixpath\<close>: when it contains a slash) and \<open>output_fc\<close>
  joined to the absolute workspace otherwise. The merge is applied to the store on which that
  path was just tested: either \<open>Exists\<close> denies the path there, or \<open>Exists\<close> holds,
  \<open>Delete\<close> is applied to that store and succeeds, and the merge is applied to the store
  that \<open>Delete\<close> leaves. A run that returns \<open>p\<close> has a merge that returned \<open>p\<close>. The
  store after the run is the store before it with the tools of the logged calls applied in order.
  For tools where a successful \<open>Delete\<close> leaves nothing under its path, a merge onto a free
  path leaves under its result exactly the records of its inputs, and listing the fields and
  removing identical records add no record: no dataset exists at the output path when the merge
  is applied, and the records under \<open>p\<close> after a returning run are among the records of the
  merge's inputs on the store of the merge.
\<close>

theorem run_of2_output:
  fixes arc :: "'s arcpy" and w :: "'s world"
    and content :: "'s \<Rightarrow> string \<Rightarrow> 'r set" and merged :: "'s \<Rightarrow> string list \<Rightarrow> 'r set"
  assumes "log (snd (run_of2 P arc expression workspace_gdb storm_catchment storm_cleanout parcels
                      output_fc scratch_gdb w)) = log w @ tr"
    and "out_path = (if dirname P output_fc \<noteq> [] then output_fc
                     else join P (abspath P workspace_gdb) output_fc)"
    and "E = of2_settings P workspace_gdb scratch_gdb"
  shows "(\<forall>pre ins out fms res post. tr = pre @ Ev_Merge ins out fms res # post \<longrightarrow>
            out = out_path \<and> ins = [''storm_catchment_layer'', ''storm_cleanout_layer'']
            \<and> (\<exists>pre' s.
                  ((pre = pre' @ [Ev_Exists out False]
                      \<and> replay arc pre' (env w, eng w) = Some (E, s) \<and> \<not> tool_Exists arc E s out)
                   \<or> (\<exists>s0 u. pre = pre' @ [Ev_Exists out True, Ev_Delete out True]
                         \<and> replay arc pre' (env w, eng w) = Some (E, s0) \<and> tool_Exists arc E s0 out
                         \<and> tool_Delete arc E s0 out = (Inr u, s)))
                  \<and> replay arc pre (env w, eng w) = Some (E, s)
                  \<and> outcome (fst (tool_Merge arc E s ins out fms)) = res
                  \<and> (delete_clears arc \<longrightarrow> \<not> tool_Exists arc E s out))) \<and>
         (\<forall>p. fst (run_of2 P arc expression workspace_gdb storm_catchment storm_cleanout parcels
                     output_fc scratch_gdb w) = Inr p \<longrightarrow>
            (\<exists>ins fms. Ev_Merge ins out_path fms (Some p) \<in> set tr)) \<and>
         (dirname (posixpath ab) output_fc \<noteq> [] \<longleftrightarrow> CHR ''/'' \<in> set output_fc) \<and>
         replay arc tr (env w, eng w)
           = Some (env w, eng (snd (run_of2 P arc expression workspace_gdb storm_catchment
                                      storm_cleanout parcels output_fc scratch_gdb w))) \<and>
         (delete_clears arc \<and> merge_fresh arc content merged \<and> dedup_shrinks arc content \<longrightarrow>
            (\<forall>p. fst (run_of2 P arc expression workspace_gdb storm_catchment storm_cleanout parcels
                        output_fc scratch_gdb w) = Inr p \<longrightarrow>
               (\<exists>pre ins fms post s.
                  tr = pre @ Ev_Merge ins out_path fms (Some p) # post
                  \<and> replay arc pre (env w, eng w) = Some (E, s)
                  \<and> \<not> tool_Exists arc E s out_path
                  \<and> content (eng (snd (run_of2 P arc expression workspace_gdb storm_catchment
                                         storm_cleanout parcels output_fc scratch_gdb w))) p
                      \<subseteq> merged s ins)))"
proof -
  let ?run = "run_of2 P arc expression workspace_gdb storm_catchment storm_cleanout parcels
                output_fc scratch_gdb w"
  let ?c0 = "(env w, eng w)"
  note ev = output_events_of_run [OF assms(1,2)]
  note mr = run_of2_merges [OF assms(1,2), unfolded merge_run_def preceded_def]
  have at: "out = out_path \<and> ins = [''storm_catchment_layer'', ''storm_cleanout_layer'']
            \<and> (\<exists>pre' s.
                  ((pre = pre' @ [Ev_Exists out False]
                      \<and> replay arc pre' ?c0 = Some (E, s) \<and> \<not> tool_Exists arc E s out)
                   \<or> (\<exists>s0 u. pre = pre' @ [Ev_Exists out True, Ev_Delete out True]
                         \<and> replay arc pre' ?c0 = Some (E, s0) \<and> tool_Exists arc E s0 out
                         \<and> tool_Delete arc E s0 out = (Inr u, s)))
                  \<and> replay arc pre ?c0 = Some (E, s)
                  \<and> (\<exists>r s'. tool_Merge arc E s ins out fms = (r, s') \<and> outcome r = res
                        \<and> replay arc post (E, s') = Some (env w, eng (snd ?run)))
                  \<and> (delete_clears arc \<longrightarrow> \<not> tool_Exists arc E s out))"
    if tr: "tr = pre @ Ev_Merge ins out fms res # post" for pre ins out fms res post
  proof -
    from ev [THEN conjunct1, rule_format, OF tr] obtain pre' where o: "out = out_path"
      and pre: "pre = pre' @ [Ev_Exists out False] \<or> pre = pre' @ [Ev_Exists out True, Ev_Delete out True]"
      by blast
    from mr tr have "merge_ok out_path [''storm_catchment_layer'', ''storm_cleanout_layer''] pre
        (Ev_Merge ins out fms res)"
      by (metis is_merge.simps(1))
    then have i: "ins = [''storm_catchment_layer'', ''storm_cleanout_layer'']"
      by (simp add: merge_ok_def)
    have "\<not> is_env (Ev_Merge ins out fms res)" by simp
    from run_of2_at [OF assms(1) assms(3) tr this] obtain s s' where
      s: "replay arc pre ?c0 = Some (E, s)"
      "apply_event arc (Ev_Merge ins out fms res) (E, s) = Some (E, s')"
      "replay arc post (E, s') = Some (env w, eng (snd ?run))"
      by blast
    from s(2,3) have m: "\<exists>r s'. tool_Merge arc E s ins out fms = (r, s') \<and> outcome r = res
                        \<and> replay arc post (E, s') = Some (env w, eng (snd ?run))"
      by (auto split: prod.splits if_splits)
    note c = replay_checked [OF pre s(1)]
    have "delete_clears arc \<longrightarrow> \<not> tool_Exists arc E s out"
      using c unfolding delete_clears_def by blast
    with c m o i s(1) show ?thesis by blast
  qed
  have 1: "\<forall>pre ins out fms res post. tr = pre @ Ev_Merge ins out fms res # post \<longrightarrow>
            out = out_path \<and> ins = [''storm_catchment_layer'', ''storm_cleanout_layer'']
            \<and> (\<exists>pre' s.
                  ((pre = pre' @ [Ev_Exists out False]
                      \<and> replay arc pre' ?c0 = Some (E, s) \<and> \<not> tool_Exists arc E s out)
                   \<or> (\<exists>s0 u. pre = pre' @ [Ev_Exists out True, Ev_Delete out True]
                         \<and> replay arc pre' ?c0 = Some (E, s0) \<and> tool_Exists arc E s0 out
                         \<and> tool_Delete arc E s0 out = (Inr u, s)))
                  \<and> replay arc pre (env w, eng w) = Some (E, s)
                  \<and> outcome (fst (tool_Merge arc E s ins out fms)) = res
                  \<and> (delete_clears arc \<longrightarrow> \<not> tool_Exists arc E s out))"
  proof (intro allI impI)
    fix pre ins out fms res post
    assume "tr = pre @ Ev_Merge ins out fms res # post"
    from at [OF this] show "out = out_path \<and> ins = [''storm_catchment_layer'', ''storm_cleanout_layer'']
            \<and> (\<exists>pre' s.
                  ((pre = pre' @ [Ev_Exists out False]
                      \<and> replay arc pre' ?c0 = Some (E, s) \<and> \<not> tool_Exists arc E s out)
                   \<or> (\<exists>s0 u. pre = pre' @ [Ev_Exists out True, Ev_Delete out True]
                         \<and> replay arc pre' ?c0 = Some (E, s0) \<and> tool_Exists arc E s0 out
                         \<and> tool_Delete arc E s0 out = (Inr u, s)))
                  \<and> replay arc pre (env w, eng w) = Some (E, s)
                  \<and> outcome (fst (tool_Merge arc E s ins out fms)) = res
                  \<and> (delete_clears arc \<longrightarrow> \<not> tool_Exists arc E s out))"
      by (elim conjE exE) (intro conjI exI, assumption+, simp, assumption)
  qed
  have 5: "\<exists>pre ins fms post s.
                  tr = pre @ Ev_Merge ins out_path fms (Some p) # post
                  \<and> replay arc pre ?c0 = Some (E, s)
                  \<and> \<not> tool_Exists arc E s out_path
                  \<and> content (eng (snd ?run)) p \<subseteq> merged s ins"
    if k: "delete_clears arc" "merge_fresh arc content merged" "dedup_shrinks arc content"
      and p: "fst ?run = Inr p" for p
  proof -
    from run_of2_dedup_run [OF assms(1,3)] p obtain tr' where
      tr': "tr = EnvEnter E # tr' @ [EnvExit (env w)]" "dedup_run (Inr p) tr'"
      by auto
    from tr'(2) obtain pre1 ins out fms p0 d where
      sh: "tr' = pre1 @ Ev_Merge ins out fms (Some p0) # d" "dedup_events p0 (Inr p) d"
      unfolding dedup_run_def by auto
    from dedup_events_returned [OF sh(2)] obtain fs where p0: "p0 = p"
      and d: "d = [Ev_ListFields p (Some fs), Ev_DeleteIdentical p [''OrigPlan''] True]
              \<or> d = [Ev_ListFields p (Some fs), LoggingWarning skip_message]"
      by blast
    have tr: "tr = (EnvEnter E # pre1) @ Ev_Merge ins out fms (Some p) # (d @ [EnvExit (env w)])"
      by (simp add: tr'(1) sh(1) p0)
    from at [OF tr] k(1) obtain s r s' where o: "out = out_path"
      and s: "replay arc (EnvEnter E # pre1) ?c0 = Some (E, s)" "\<not> tool_Exists arc E s out"
      "tool_Merge arc E s ins out fms = (r, s')" "outcome r = Some p"
      "replay arc (d @ [EnvExit (env w)]) (E, s') = Some (env w, eng (snd ?run))"
      by blast
    from s(4) have "r = Inr p" by (cases r) (simp_all add: outcome_def)
    with k(2) s(2,3) have "content s' p = merged s ins"
      unfolding merge_fresh_def by blast
    moreover from replay_dedup_content [OF k(3) d s(5)]
    have "content (eng (snd ?run)) p \<subseteq> content s' p" .
    ultimately have "content (eng (snd ?run)) p \<subseteq> merged s ins" by simp
    with tr o s(1,2) show ?thesis by blast
  qed
  from ev 1 5 run_of2_replay_all [OF assms(1)] show ?thesis
    by (intro conjI) blast+
qed

lemma record_run:
  "fst (small_run record_arcpy ''Parcels'' record_store) = Inr ''/gdb/out''"
  "eng (snd (small_run record_arcpy ''Parcels'' record_store)) =
     [(''/gdb/out'', [''plan 1'', ''plan 2'', ''plan 3'']),
      (''storm_cleanout_layer'', [''plan 2'', ''plan 3'']),
      (''storm_catchment_layer'', [''plan 1'', ''plan 2'']),
      (''parcels_layer'', [''lot 1'']), (''/gdb/Parcels'', [''lot 1'']),
      (''/gdb/Catchment'', [''plan 1'', ''plan 2'']),
      (''/gdb/Cleanout'', [''plan 2'', ''plan 3''])]"
  by (simp_all add: of2_defs record_arcpy_def record_store_def records_of_def)

lemma records_of_deduplicated:
  "records_of (map (\<lambda>x. if fst x = p then (fst x, remdups (snd x)) else x) s) q
     = (if q = p then remdups (records_of s q) else records_of s q)"
  by (induction s) (auto simp: records_of_def)

lemma record_contracts:
  "merge_fresh record_arcpy record_content record_merged"
  "dedup_shrinks record_arcpy record_content"
  by (auto simp: merge_fresh_def dedup_shrinks_def record_arcpy_def record_content_def
      record_merged_def records_of_deduplicated) (auto simp: records_of_def)

text \<open>
  A run on a store of records where an earlier output with the record \<open>plan 0\<close> exists: after
  the run the output holds the records of the two layers and not \<open>plan 0\<close>.
\<close>

theorem run_of2_output_witness:
  "(\<exists>pre ins fms post s.
      log (snd (small_run record_arcpy ''Parcels'' record_store))
        = pre @ Ev_Merge ins ''/gdb/out'' fms (Some ''/gdb/out'') # post
      \<and> replay record_arcpy pre (small_env, record_store) = Some (small_settings, s)
      \<and> \<not> tool_Exists record_arcpy small_settings s ''/gdb/out''
      \<and> record_content (eng (snd (small_run record_arcpy ''Parcels'' record_store))) ''/gdb/out''
          \<subseteq> record_merged s ins) \<and>
   record_content record_store ''/gdb/out'' = {''plan 0''} \<and>
   record_content (eng (snd (small_run record_arcpy ''Parcels'' record_store))) ''/gdb/out''
     = {''plan 1'', ''plan 2'', ''plan 3''}"
proof -
  let ?run = "small_run record_arcpy ''Parcels'' record_store"
  have h: "log (snd (run_of2 (posixpath id) record_arcpy ''PARCEL_NUMBER = 1'' ''/gdb'' ''Catchment''
                ''Cleanout'' ''Parcels'' ''out'' None (small_world record_store)))
           = log (small_world record_store) @ log (snd ?run)"
    by (simp add: small_run_def small_world_def)
  have w: "env (small_world record_store) = small_env" "eng (small_world record_store) = record_store"
    by (simp_all add: small_world_def)
  note out = run_of2_output [OF h refl refl, where content = record_content
      and merged = record_merged and ab = id, unfolded small_paths w small_run_def [symmetric]]
  from out delete_clears_small(2) record_contracts record_run(1)
  obtain pre ins fms post s where
    a: "log (snd ?run) = pre @ Ev_Merge ins ''/gdb/out'' fms (Some ''/gdb/out'') # post"
      "replay record_arcpy pre (small_env, record_store) = Some (small_settings, s)"
      "record_content (eng (snd ?run)) ''/gdb/out'' \<subseteq> record_merged s ins"
    and b: "\<not> tool_Exists record_arcpy small_settings s ''/gdb/out''"
    by blast
  have c: "record_content record_store ''/gdb/out'' = {''plan 0''}"
    "record_content (eng (snd ?run)) ''/gdb/out'' = {''plan 1'', ''plan 2'', ''plan 3''}"
    by (simp add: record_content_def records_of_def record_store_def)
      (auto simp: record_run(2) record_content_def records_of_def)
  from a b c show ?thesis by blast
qed

lemma unique_split:
  assumes eq: "pre @ e # post = pre' @ e' # post'" and "sel e" "sel e'"
    and "\<forall>x \<in> set pre'. \<not> sel x" "\<forall>x \<in> set post'. \<not> sel x"
  shows "pre = pre' \<and> e = e' \<and> post = post'"
proof -
  from eq consider us where "pre = pre' @ us" "us @ e # post = e' # post'"
    | us where "pre @ us = pre'" "e # post = us @ e' # post'"
    by (auto simp: append_eq_append_conv2)
  then show ?thesis
  proof cases
    case 1
    with assms(2,5) show ?thesis by (cases us) auto
  next
    case 2
    with assms(2,4) show ?thesis by (cases us) auto
  qed
qed

lemma dedup_events_not_merged: "dedup_events p r d \<Longrightarrow> \<forall>e \<in> set d. \<not> merged_ok e"
  unfolding dedup_events_def by auto

text \<open>The tools behind the events of the duplicate removal and the exit.\<close>

lemma replay_dedup_tools:
  assumes d: "dedup_events p r d"
    and rp: "replay arc (d @ [EnvExit saved]) (E, s) = Some (E', s')"
  shows "\<exists>r1 s1. tool_ListFields arc E s p = (r1, s1) \<and>
           (case r1 of
              Inl e \<Rightarrow> d = [Ev_ListFields p None] \<and> (\<exists>e'. r = Inl e') \<and> s' = s1
            | Inr fs \<Rightarrow>
                if ''OrigPlan'' \<in> set (map name fs)
                then \<exists>r2 s2. tool_DeleteIdentical arc E s1 p [''OrigPlan''] = (r2, s2)
                       \<and> d = [Ev_ListFields p (Some fs),
                              Ev_DeleteIdentical p [''OrigPlan''] (succeeded r2)]
                       \<and> s' = s2 \<and> (if succeeded r2 then r = Inr p else \<exists>e. r = Inl e)
                else d = [Ev_ListFields p (Some fs), LoggingWarning skip_message]
                       \<and> s' = s1 \<and> r = Inr p)"
proof -
  obtain r1 s1 where lf: "tool_ListFields arc E s p = (r1, s1)"
    by (cases "tool_ListFields arc E s p")
  obtain r2 s2 where di: "tool_DeleteIdentical arc E s1 p [''OrigPlan''] = (r2, s2)"
    by (cases "tool_DeleteIdentical arc E s1 p [''OrigPlan'']")
  from d consider "d = [Ev_ListFields p None]" "\<exists>e. r = Inl e"
    | fs ok where "''OrigPlan'' \<in> set (map name fs)"
        "d = [Ev_ListFields p (Some fs), Ev_DeleteIdentical p [''OrigPlan''] ok]"
        "if ok then r = Inr p else \<exists>e. r = Inl e"
    | fs where "''OrigPlan'' \<notin> set (map name fs)"
        "d = [Ev_ListFields p (Some fs), LoggingWarning skip_message]" "r = Inr p"
    unfolding dedup_events_def by blast
  then show ?thesis
  proof cases
    case 1
    with rp lf have "outcome r1 = None" "s' = s1"
      by (auto split: if_splits)
    then obtain e where "r1 = Inl e" by (cases r1) (auto simp: outcome_def)
    with 1 lf \<open>s' = s1\<close> show ?thesis by simp
  next
    case 2
    with rp lf di have "outcome r1 = Some fs" "succeeded r2 = ok" "s' = s2"
      by (auto split: if_splits)
    moreover then have "r1 = Inr fs" by (cases r1) (auto simp: outcome_def)
    ultimately show ?thesis using 2 lf di by simp
  next
    case 3
    with rp lf have "outcome r1 = Some fs" "s' = s1"
      by (auto split: if_splits)
    moreover then have "r1 = Inr fs" by (cases r1) (auto simp: outcome_def)
    ultimately show ?thesis using 3 lf by simp
  qed
qed

text \<open>
  Claim C5. Once a merge of a run has returned \<open>p\<close>, \<open>ListFields\<close> is applied to \<open>p\<close> on
  the store the merge left. If \<open>OrigPlan\<close> is among the names of the listed fields,
  \<open>DeleteIdentical\<close> is applied to \<open>p\<close> with exactly the key \<open>OrigPlan\<close> on the store after
  the listing, it is the last call of the run, the store it leaves is the store after the run,
  and the run returns \<open>p\<close> when it succeeds and ends with its error otherwise. If \<open>OrigPlan\<close>
  is not among them, the warning is logged, no tool is applied any more, the store after the
  listing is the store after the run, and the run returns \<open>p\<close>. If the listing fails the run
  ends with an error. \<open>DeleteIdentical\<close> is called in no other case and with no other key, and
  a run that returns \<open>p\<close> has a merge that returned \<open>p\<close>.
\<close>

theorem run_of2_removes_duplicates:
  fixes arc :: "'s arcpy" and w :: "'s world"
  assumes "log (snd (run_of2 P arc expression workspace_gdb storm_catchment storm_cleanout parcels
                      output_fc scratch_gdb w)) = log w @ tr"
    and "E = of2_settings P workspace_gdb scratch_gdb"
  shows "(\<forall>p fs. Ev_ListFields p (Some fs) \<in> set tr \<longrightarrow>
            (\<exists>pre ins out fms. (\<forall>e \<in> set pre. \<not> is_dedup e) \<and>
               (if ''OrigPlan'' \<in> set (map name fs)
                then \<exists>ok. tr = pre @ [Ev_Merge ins out fms (Some p), Ev_ListFields p (Some fs),
                                       Ev_DeleteIdentical p [''OrigPlan''] ok, EnvExit (env w)]
                          \<and> (ok \<longrightarrow> fst (run_of2 P arc expression workspace_gdb storm_catchment
                                             storm_cleanout parcels output_fc scratch_gdb w) = Inr p)
                else tr = pre @ [Ev_Merge ins out fms (Some p), Ev_ListFields p (Some fs),
                                 LoggingWarning skip_message, EnvExit (env w)]
                     \<and> fst (run_of2 P arc expression workspace_gdb storm_catchment storm_cleanout
                              parcels output_fc scratch_gdb w) = Inr p))) \<and>
         (\<forall>q ks ok. Ev_DeleteIdentical q ks ok \<in> set tr \<longrightarrow>
            ks = [''OrigPlan'']
            \<and> (\<exists>fs. Ev_ListFields q (Some fs) \<in> set tr \<and> ''OrigPlan'' \<in> set (map name fs))) \<and>
         (\<forall>pre ins out fms p post. tr = pre @ Ev_Merge ins out fms (Some p) # post \<longrightarrow>
            (\<exists>s r1 s1.
               replay arc (pre @ [Ev_Merge ins out fms (Some p)]) (env w, eng w) = Some (E, s)
               \<and> tool_ListFields arc E s p = (r1, s1)
               \<and> (case r1 of
                    Inl e \<Rightarrow>
                      post = [Ev_ListFields p None, EnvExit (env w)]
                      \<and> (\<exists>e'. fst (run_of2 P arc expression workspace_gdb storm_catchment
                                      storm_cleanout parcels output_fc scratch_gdb w) = Inl e')
                      \<and> eng (snd (run_of2 P arc expression workspace_gdb storm_catchment
                                     storm_cleanout parcels output_fc scratch_gdb w)) = s1
                  | Inr fs \<Rightarrow>
                      if ''OrigPlan'' \<in> set (map name fs)
                      then \<exists>r2 s2.
                             tool_DeleteIdentical arc E s1 p [''OrigPlan''] = (r2, s2)
                             \<and> post = [Ev_ListFields p (Some fs),
                                       Ev_DeleteIdentical p [''OrigPlan''] (succeeded r2),
                                       EnvExit (env w)]
                             \<and> eng (snd (run_of2 P arc expression workspace_gdb storm_catchment
                                            storm_cleanout parcels output_fc scratch_gdb w)) = s2
                             \<and> (if succeeded r2
                                 then fst (run_of2 P arc expression workspace_gdb storm_catchment
                                             storm_cleanout parcels output_fc scratch_gdb w) = Inr p
                                 else \<exists>e. fst (run_of2 P arc expression workspace_gdb
                                                 storm_catchment storm_cleanout parcels output_fc
                                                 scratch_gdb w) = Inl e)
                      else post = [Ev_ListFields p (Some fs), LoggingWarning skip_message,
                                   EnvExit (env w)]
                           \<and> eng (snd (run_of2 P arc expression workspace_gdb storm_catchment
                                          storm_cleanout parcels output_fc scratch_gdb w)) = s1
                           \<and> fst (run_of2 P arc expression workspace_gdb storm_catchment
                                    storm_cleanout parcels output_fc scratch_gdb w) = Inr p))) \<and>
         (\<forall>p. fst (run_of2 P arc expression workspace_gdb storm_catchment storm_cleanout parcels
                     output_fc scratch_gdb w) = Inr p \<longrightarrow>
            (\<exists>ins out fms. Ev_Merge ins out fms (Some p) \<in> set tr)) \<and>
         replay arc tr (env w, eng w)
           = Some (env w, eng (snd (run_of2 P arc expression workspace_gdb storm_catchment
                                      storm_cleanout parcels output_fc scratch_gdb w)))"
proof -
  let ?run = "run_of2 P arc expression workspace_gdb storm_catchment storm_cleanout parcels
                output_fc scratch_gdb w"
  let ?c0 = "(env w, eng w)"
  note old = dedup_events_of_run [OF assms(1)]
  from run_of2_dedup_run [OF assms] obtain tr' where
    tr': "tr = EnvEnter E # tr' @ [EnvExit (env w)]" "dedup_run (fst ?run) tr'"
    by blast
  have 3: "\<exists>s r1 s1.
               replay arc (pre @ [Ev_Merge ins out fms (Some p)]) ?c0 = Some (E, s)
               \<and> tool_ListFields arc E s p = (r1, s1)
               \<and> (case r1 of
                    Inl e \<Rightarrow>
                      post = [Ev_ListFields p None, EnvExit (env w)]
                      \<and> (\<exists>e'. fst ?run = Inl e') \<and> eng (snd ?run) = s1
                  | Inr fs \<Rightarrow>
                      if ''OrigPlan'' \<in> set (map name fs)
                      then \<exists>r2 s2.
                             tool_DeleteIdentical arc E s1 p [''OrigPlan''] = (r2, s2)
                             \<and> post = [Ev_ListFields p (Some fs),
                                       Ev_DeleteIdentical p [''OrigPlan''] (succeeded r2),
                                       EnvExit (env w)]
                             \<and> eng (snd ?run) = s2
                             \<and> (if succeeded r2 then fst ?run = Inr p else \<exists>e. fst ?run = Inl e)
                      else post = [Ev_ListFields p (Some fs), LoggingWarning skip_message,
                                   EnvExit (env w)]
                           \<and> eng (snd ?run) = s1 \<and> fst ?run = Inr p)"
    if tr: "tr = pre @ Ev_Merge ins out fms (Some p) # post" for pre ins out fms p post
  proof -
    let ?M = "Ev_Merge ins out fms (Some p)"
    from tr tr'(1) have "EnvEnter E # tr' @ [EnvExit (env w)] = pre @ ?M # post" by simp
    then obtain pre2 post2 where w2: "pre = EnvEnter E # pre2" "post = post2 @ [EnvExit (env w)]"
      "tr' = pre2 @ ?M # post2"
      by (rule inside_wrap) simp_all
    from tr'(2) w2(3) obtain pre1 ins' out' fms' p0 d where
      sh: "tr' = pre1 @ Ev_Merge ins' out' fms' (Some p0) # d"
      "\<forall>e \<in> set pre1. \<not> is_dedup e \<and> \<not> merged_ok e" "dedup_events p0 (fst ?run) d"
      unfolding dedup_run_def by fastforce
    from w2(3) sh(1) have "pre2 @ ?M # post2 = pre1 @ Ev_Merge ins' out' fms' (Some p0) # d"
      by simp
    from unique_split [OF this, of merged_ok] sh(2) dedup_events_not_merged [OF sh(3)]
    have u: "pre2 = pre1" "p0 = p" "post2 = d" by auto
    have "\<not> is_env ?M" by simp
    from run_of2_at [OF assms tr this] obtain s0 s where
      s: "replay arc pre ?c0 = Some (E, s0)" "apply_event arc ?M (E, s0) = Some (E, s)"
      "replay arc post (E, s) = Some (env w, eng (snd ?run))"
      by blast
    from s(1,2) have a: "replay arc (pre @ [?M]) ?c0 = Some (E, s)"
      by (simp add: replay_append)
    from sh(3) u have "dedup_events p (fst ?run) d" by simp
    from replay_dedup_tools [OF this s(3) [unfolded w2(2) u(3)]] obtain r1 s1 where
      lf: "tool_ListFields arc E s p = (r1, s1)" and
      c: "case r1 of
              Inl e \<Rightarrow> d = [Ev_ListFields p None] \<and> (\<exists>e'. fst ?run = Inl e')
                         \<and> eng (snd ?run) = s1
            | Inr fs \<Rightarrow>
                if ''OrigPlan'' \<in> set (map name fs)
                then \<exists>r2 s2. tool_DeleteIdentical arc E s1 p [''OrigPlan''] = (r2, s2)
                       \<and> d = [Ev_ListFields p (Some fs),
                              Ev_DeleteIdentical p [''OrigPlan''] (succeeded r2)]
                       \<and> eng (snd ?run) = s2
                       \<and> (if succeeded r2 then fst ?run = Inr p else \<exists>e. fst ?run = Inl e)
                else d = [Ev_ListFields p (Some fs), LoggingWarning skip_message]
                       \<and> eng (snd ?run) = s1 \<and> fst ?run = Inr p"
      by blast
    show ?thesis unfolding w2(2) u(3)
    proof (intro exI conjI)
      show "replay arc (pre @ [?M]) ?c0 = Some (E, s)" by (rule a)
      show "tool_ListFields arc E s p = (r1, s1)" by (rule lf)
      show "case r1 of
              Inl e \<Rightarrow> d @ [EnvExit (env w)] = [Ev_ListFields p None, EnvExit (env w)]
                         \<and> (\<exists>e'. fst ?run = Inl e') \<and> eng (snd ?run) = s1
            | Inr fs \<Rightarrow>
                if ''OrigPlan'' \<in> set (map name fs)
                then \<exists>r2 s2. tool_DeleteIdentical arc E s1 p [''OrigPlan''] = (r2, s2)
                       \<and> d @ [EnvExit (env w)] = [Ev_ListFields p (Some fs),
                              Ev_DeleteIdentical p [''OrigPlan''] (succeeded r2), EnvExit (env w)]
                       \<and> eng (snd ?run) = s2
                       \<and> (if succeeded r2 then fst ?run = Inr p else \<exists>e. fst ?run = Inl e)
                else d @ [EnvExit (env w)]
                       = [Ev_ListFields p (Some fs), LoggingWarning skip_message, EnvExit (env w)]
                       \<and> eng (snd ?run) = s1 \<and> fst ?run = Inr p"
      proof (cases r1)
        case (Inl e)
        with c show ?thesis by simp
      next
        case (Inr fs)
        show ?thesis
        proof (cases "''OrigPlan'' \<in> set (map name fs)")
          case True
          with c Inr obtain r2 s2 where
            "tool_DeleteIdentical arc E s1 p [''OrigPlan''] = (r2, s2)"
            "d = [Ev_ListFields p (Some fs), Ev_DeleteIdentical p [''OrigPlan''] (succeeded r2)]"
            "eng (snd ?run) = s2"
            "if succeeded r2 then fst ?run = Inr p else \<exists>e. fst ?run = Inl e"
            by auto
          with True Inr show ?thesis by simp
        next
          case False
          with c Inr show ?thesis by simp
        qed
      qed
    qed
  qed
  have 4: "\<exists>ins out fms. Ev_Merge ins out fms (Some p) \<in> set tr" if "fst ?run = Inr p" for p
  proof -
    from tr'(2) that obtain pre1 ins out fms p0 d where
      sh: "tr' = pre1 @ Ev_Merge ins out fms (Some p0) # d" "dedup_events p0 (Inr p) d"
      unfolding dedup_run_def by auto
    from dedup_events_returned [OF sh(2)] have "p0 = p" by blast
    with sh(1) tr'(1) show ?thesis by auto
  qed
  from old 3 4 run_of2_replay_all [OF assms(1)] show ?thesis
    by (intro conjI) blast+
qed

text \<open>
  A run on the store of records, whose merged output holds \<open>plan 2\<close> twice and is left with
  one of each record, and a run whose merge wrote no field.
\<close>

theorem run_of2_removes_duplicates_witness:
  "(\<exists>pre ins out fms s fs.
      log (snd (small_run record_arcpy ''Parcels'' record_store))
        = pre @ [Ev_Merge ins out fms (Some ''/gdb/out''), Ev_ListFields ''/gdb/out'' (Some fs),
                 Ev_DeleteIdentical ''/gdb/out'' [''OrigPlan''] True, EnvExit small_env]
      \<and> replay record_arcpy (pre @ [Ev_Merge ins out fms (Some ''/gdb/out'')])
            (small_env, record_store) = Some (small_settings, s)
      \<and> tool_ListFields record_arcpy small_settings s ''/gdb/out'' = (Inr fs, s)
      \<and> ''OrigPlan'' \<in> set (map name fs)
      \<and> tool_DeleteIdentical record_arcpy small_settings s ''/gdb/out'' [''OrigPlan'']
          = (Inr (), eng (snd (small_run record_arcpy ''Parcels'' record_store)))
      \<and> records_of (eng (snd (small_run record_arcpy ''Parcels'' record_store))) ''/gdb/out''
          = remdups (records_of s ''/gdb/out'')) \<and>
   fst (small_run record_arcpy ''Parcels'' record_store) = Inr ''/gdb/out'' \<and>
   records_of (eng (snd (small_run record_arcpy ''Parcels'' record_store))) ''/gdb/out''
     = [''plan 1'', ''plan 2'', ''plan 3''] \<and>
   (\<exists>pre ins out fms.
      log (snd (small_run bare_arcpy ''Parcels'' small_store))
        = pre @ [Ev_Merge ins out fms (Some ''/gdb/out''), Ev_ListFields ''/gdb/out'' (Some []),
                 LoggingWarning skip_message, EnvExit small_env]
      \<and> fst (small_run bare_arcpy ''Parcels'' small_store) = Inr ''/gdb/out'')"
proof -
  let ?run = "small_run record_arcpy ''Parcels'' record_store"
  let ?fs = "[\<lparr>name = ''OrigPlan'', aliasName = ''OrigPlan''\<rparr>,
              \<lparr>name = ''DocLink'', aliasName = ''DocLink''\<rparr>]"
  have h: "log (snd (run_of2 (posixpath id) arc ''PARCEL_NUMBER = 1'' ''/gdb'' ''Catchment''
                ''Cleanout'' ''Parcels'' ''out'' None (small_world st)))
           = log (small_world st) @ log (snd (small_run arc ''Parcels'' st))" for arc st
    by (simp add: small_run_def small_world_def)
  have w: "env (small_world st) = small_env" "eng (small_world st) = st" for st
    by (simp_all add: small_world_def)
  note dup = run_of2_removes_duplicates [OF h refl, unfolded small_paths w
      small_run_def [symmetric]]
  from dup [of record_arcpy record_store, THEN conjunct2, THEN conjunct2, THEN conjunct2,
      THEN conjunct1, rule_format, OF record_run(1)]
  obtain ins out fms where "Ev_Merge ins out fms (Some ''/gdb/out'') \<in> set (log (snd ?run))"
    by blast
  then obtain pre post where
    tr: "log (snd ?run) = pre @ Ev_Merge ins out fms (Some ''/gdb/out'') # post"
    by (auto dest: split_list)
  from dup [of record_arcpy record_store, THEN conjunct2, THEN conjunct2, THEN conjunct1,
      rule_format, OF tr]
  obtain s r1 s1 where
    rp: "replay record_arcpy (pre @ [Ev_Merge ins out fms (Some ''/gdb/out'')])
           (small_env, record_store) = Some (small_settings, s)"
    and lf: "tool_ListFields record_arcpy small_settings s ''/gdb/out'' = (r1, s1)"
    and c: "case r1 of
              Inl e \<Rightarrow> post = [Ev_ListFields ''/gdb/out'' None, EnvExit small_env]
                \<and> (\<exists>e'. fst ?run = Inl e') \<and> eng (snd ?run) = s1
            | Inr fs \<Rightarrow>
                if ''OrigPlan'' \<in> set (map name fs)
                then \<exists>r2 s2. tool_DeleteIdentical record_arcpy small_settings s1 ''/gdb/out''
                                [''OrigPlan''] = (r2, s2)
                       \<and> post = [Ev_ListFields ''/gdb/out'' (Some fs),
                                 Ev_DeleteIdentical ''/gdb/out'' [''OrigPlan''] (succeeded r2),
                                 EnvExit small_env]
                       \<and> eng (snd ?run) = s2
                       \<and> (if succeeded r2 then fst ?run = Inr ''/gdb/out''
                           else \<exists>e. fst ?run = Inl e)
                else post = [Ev_ListFields ''/gdb/out'' (Some fs), LoggingWarning skip_message,
                             EnvExit small_env]
                     \<and> eng (snd ?run) = s1 \<and> fst ?run = Inr ''/gdb/out''"
    by blast
  from lf have r1: "r1 = Inr ?fs" "s1 = s"
    by (simp_all add: record_arcpy_def)
  have p: "''OrigPlan'' \<in> set (map name ?fs)" by simp
  from c [unfolded r1 sum.case if_P [OF p]] obtain r2 s2 where
    di: "tool_DeleteIdentical record_arcpy small_settings s ''/gdb/out'' [''OrigPlan''] = (r2, s2)"
    and post: "post = [Ev_ListFields ''/gdb/out'' (Some ?fs),
                       Ev_DeleteIdentical ''/gdb/out'' [''OrigPlan''] (succeeded r2),
                       EnvExit small_env]"
    and e: "eng (snd ?run) = s2"
    by blast
  from di have r2: "r2 = Inr ()"
    and s2: "s2 = map (\<lambda>x. if fst x = ''/gdb/out'' then (fst x, remdups (snd x)) else x) s"
    by (simp_all add: record_arcpy_def)
  have ok: "succeeded r2" unfolding r2 by (simp add: succeeded_def)
  have rd: "records_of (eng (snd ?run)) ''/gdb/out'' = remdups (records_of s ''/gdb/out'')"
    unfolding e s2 by (simp add: records_of_deduplicated)
  have a: "\<exists>pre ins out fms s fs.
      log (snd ?run)
        = pre @ [Ev_Merge ins out fms (Some ''/gdb/out''), Ev_ListFields ''/gdb/out'' (Some fs),
                 Ev_DeleteIdentical ''/gdb/out'' [''OrigPlan''] True, EnvExit small_env]
      \<and> replay record_arcpy (pre @ [Ev_Merge ins out fms (Some ''/gdb/out'')])
            (small_env, record_store) = Some (small_settings, s)
      \<and> tool_ListFields record_arcpy small_settings s ''/gdb/out'' = (Inr fs, s)
      \<and> ''OrigPlan'' \<in> set (map name fs)
      \<and> tool_DeleteIdentical record_arcpy small_settings s ''/gdb/out'' [''OrigPlan'']
          = (Inr (), eng (snd ?run))
      \<and> records_of (eng (snd ?run)) ''/gdb/out'' = remdups (records_of s ''/gdb/out'')"
    using tr [unfolded post] ok rp lf [unfolded r1] p di [unfolded r2, folded e] rd
    by (intro exI [of _ pre] exI [of _ ins] exI [of _ out] exI [of _ fms] exI [of _ s]
        exI [of _ ?fs]) simp
  have b: "records_of (eng (snd ?run)) ''/gdb/out'' = [''plan 1'', ''plan 2'', ''plan 3'']"
    by (simp add: record_run(2) records_of_def)
  have m': "Ev_ListFields ''/gdb/out'' (Some [])
              \<in> set (log (snd (small_run bare_arcpy ''Parcels'' small_store)))"
    by (simp add: small_run_bare(2))
  have p': "''OrigPlan'' \<notin> set (map name ([] :: field list))" by simp
  from dup [of bare_arcpy small_store, THEN conjunct1, rule_format, OF m']
  obtain pre' ins' out' fms' where
      "log (snd (small_run bare_arcpy ''Parcels'' small_store))
        = pre' @ [Ev_Merge ins' out' fms' (Some ''/gdb/out''), Ev_ListFields ''/gdb/out'' (Some []),
                 LoggingWarning skip_message, EnvExit small_env]"
      "fst (small_run bare_arcpy ''Parcels'' small_store) = Inr ''/gdb/out''"
    unfolding if_not_P [OF p'] by blast
  then have d: "\<exists>pre ins out fms.
      log (snd (small_run bare_arcpy ''Parcels'' small_store))
        = pre @ [Ev_Merge ins out fms (Some ''/gdb/out''), Ev_ListFields ''/gdb/out'' (Some []),
                 LoggingWarning skip_message, EnvExit small_env]
      \<and> fst (small_run bare_arcpy ''Parcels'' small_store) = Inr ''/gdb/out''"
    by blast
  from a record_run(1) b d show ?thesis by blast
qed

end
